theory Spec2Isabelle
  imports Complex_Main "HOL-Library.Word" "HOL-Library.Signed_Division" "HOL-Library.Multiset"
begin

section \<open>Data model\<close>

text \<open>
  The quadtree of \<^verbatim>\<open>src/pa3/qtree.cpp\<close>.  Coordinates are the \<^verbatim>\<open>unsigned int\<close>
  pairs of the source, read as mathematical integers: on the images considered here
  (non-empty, fewer than \<open>2^31\<close> pixels) every coordinate that the program stores lies
  between 0 and the image dimensions, and arithmetic modulo \<open>2^32\<close> agrees with integer
  arithmetic on every value that ends up in that range (an intermediate
  \<^verbatim>\<open>lowRight.first - width1 + 1\<close> may wrap, its final value does not).  The
  \<^verbatim>\<open>int\<close> arithmetic of \<^verbatim>\<open>assignColor\<close> is different: its accumulators do leave
  the 32-bit range on large images, so the wrap-around is written out (\<open>i32\<close>), and its
  division by the total area is a division by zero when that area wraps to zero.

  A colour has three \<^verbatim>\<open>unsigned char\<close> channels.
\<close>

type_synonym point = "int \<times> int"

datatype RGBAPixel = RGBAPixel (r: "8 word") (g: "8 word") (b: "8 word")

text \<open>
  A \<^verbatim>\<open>Node*\<close> is either the null pointer or an exclusively owned node with its two
  corners, its average colour and its four child pointers.
\<close>

datatype node = Null
  | Node (upLeft: point) (lowRight: point) (avg: RGBAPixel)
      (NW: node) (NE: node) (SW: node) (SE: node)

record QTree =
  height :: int
  width :: int
  root :: node

text \<open>
  Modelled from the spec: the raster image class \<^verbatim>\<open>PNG\<close> (width, height, per-pixel
  access by integer coordinate) is an external collaborator whose code is not part of the
  sources.  An image is its two dimensions and its pixels by coordinate; a freshly
  constructed image holds the default pixel everywhere.
\<close>

record PNG =
  pngWidth :: int
  pngHeight :: int
  pngData :: "int \<Rightarrow> int \<Rightarrow> RGBAPixel"

text \<open>
  Modelled from the spec: the default-constructed pixel \<^verbatim>\<open>RGBAPixel()\<close> of the
  external pixel class, opaque white.
\<close>

definition RGBAPixel_default :: RGBAPixel where
  "RGBAPixel_default = RGBAPixel 255 255 255"

definition getPixel :: "PNG \<Rightarrow> int \<Rightarrow> int \<Rightarrow> RGBAPixel" where
  "getPixel img x y = pngData img x y"

definition setPixel :: "PNG \<Rightarrow> int \<Rightarrow> int \<Rightarrow> RGBAPixel \<Rightarrow> PNG" where
  "setPixel img x y p = img\<lparr>pngData := (pngData img)(x := (pngData img x)(y := p))\<rparr>"

definition newPNG :: "int \<Rightarrow> int \<Rightarrow> PNG" where
  "newPNG w h = \<lparr>pngWidth = w, pngHeight = h, pngData = (\<lambda>x y. RGBAPixel_default)\<rparr>"

section \<open>Machine arithmetic\<close>

text \<open>
  \<open>i32\<close> reads an integer as a 32-bit two's complement \<^verbatim>\<open>int\<close>.  The quotient of
  two \<^verbatim>\<open>int\<close>s truncates towards zero (\<open>sdiv\<close>); storing an \<^verbatim>\<open>int\<close> into an
  \<^verbatim>\<open>unsigned char\<close> keeps the low eight bits (\<open>word_of_int\<close>).
\<close>

definition i32 :: "int \<Rightarrow> int" where
  "i32 x = (x + 2147483648) mod 4294967296 - 2147483648"

text \<open>\<^verbatim>\<open>ceil(x/2.0)\<close> on an \<^verbatim>\<open>int\<close> \<open>x\<close>: exact in double precision.\<close>

definition ceil_half :: "int \<Rightarrow> int" where
  "ceil_half x = \<lceil>real_of_int x / 2\<rceil>"

section \<open>Construction\<close>

text \<open>
  The width, height and area of the rectangle of a node that is dereferenced; a null
  pointer has none.
\<close>

fun nodeWidth :: "node \<Rightarrow> int option" where
  "nodeWidth Null = None"
| "nodeWidth (Node ul lr a nw ne sw se) = Some (fst lr - fst ul + 1)"

fun nodeHeight :: "node \<Rightarrow> int option" where
  "nodeHeight Null = None"
| "nodeHeight (Node ul lr a nw ne sw se) = Some (snd lr - snd ul + 1)"

fun nodeArea :: "node \<Rightarrow> int option" where
  "nodeArea Null = None"
| "nodeArea (Node ul lr a nw ne sw se) =
     Some (i32 ((snd lr - snd ul + 1) * (fst lr - fst ul + 1)))"

fun nodeAvg :: "node \<Rightarrow> RGBAPixel option" where
  "nodeAvg Null = None"
| "nodeAvg (Node ul lr a nw ne sw se) = Some a"

text \<open>
  One channel of \<^verbatim>\<open>assignColor\<close>: the products and sums are \<^verbatim>\<open>int\<close> operations,
  evaluated left to right, the quotient is stored into an \<^verbatim>\<open>unsigned char\<close>.
\<close>

definition mix2 :: "int \<Rightarrow> 8 word \<Rightarrow> int \<Rightarrow> 8 word \<Rightarrow> int \<Rightarrow> 8 word" where
  "mix2 a1 c1 a2 c2 tot =
     word_of_int (i32 (i32 (a1 * uint c1) + i32 (a2 * uint c2)) sdiv tot)"

definition mix4 ::
  "int \<Rightarrow> 8 word \<Rightarrow> int \<Rightarrow> 8 word \<Rightarrow> int \<Rightarrow> 8 word \<Rightarrow> int \<Rightarrow> 8 word \<Rightarrow> int \<Rightarrow> 8 word" where
  "mix4 a1 c1 a2 c2 a3 c3 a4 c4 tot =
     word_of_int (i32 (i32 (i32 (i32 (a1 * uint c1) + i32 (a2 * uint c2)) + i32 (a3 * uint c3))
        + i32 (a4 * uint c4)) sdiv tot)"

text \<open>
  \<^verbatim>\<open>assignColor(subtree, mode)\<close>.  The children named by the mode are dereferenced
  without a check, and the weighted sums are divided by \<^verbatim>\<open>totalArea\<close> without a
  check; \<open>None\<close> is the null dereference or the division by zero.
\<close>

fun assignColor :: "node \<Rightarrow> string \<Rightarrow> node option" where
  "assignColor Null mode = None"
| "assignColor (Node ul lr a nw ne sw se) mode =
    (if mode = ''v'' then
       (case (nodeArea nw, nodeAvg nw, nodeArea sw, nodeAvg sw) of
          (Some nwArea, Some p1, Some swArea, Some p3) \<Rightarrow>
            (let totalArea = i32 (nwArea + swArea) in
             if totalArea = 0 then None
             else Some (Node ul lr
               (RGBAPixel (mix2 nwArea (r p1) swArea (r p3) totalArea)
                          (mix2 nwArea (g p1) swArea (g p3) totalArea)
                          (mix2 nwArea (b p1) swArea (b p3) totalArea))
               nw ne sw se))
        | _ \<Rightarrow> None)
     else if mode = ''h'' then
       (case (nodeArea nw, nodeAvg nw, nodeArea ne, nodeAvg ne) of
          (Some nwArea, Some p1, Some neArea, Some p2) \<Rightarrow>
            (let totalArea = i32 (nwArea + neArea) in
             if totalArea = 0 then None
             else Some (Node ul lr
               (RGBAPixel (mix2 nwArea (r p1) neArea (r p2) totalArea)
                          (mix2 nwArea (g p1) neArea (g p2) totalArea)
                          (mix2 nwArea (b p1) neArea (b p2) totalArea))
               nw ne sw se))
        | _ \<Rightarrow> None)
     else
       (case (nodeArea nw, nodeAvg nw, nodeArea ne, nodeAvg ne) of
          (Some nwArea, Some p1, Some neArea, Some p2) \<Rightarrow>
            (case (nodeArea sw, nodeAvg sw, nodeArea se, nodeAvg se) of
               (Some swArea, Some p3, Some seArea, Some p4) \<Rightarrow>
                 (let totalArea = i32 (i32 (i32 (nwArea + neArea) + swArea) + seArea) in
                  if totalArea = 0 then None
                  else Some (Node ul lr
                    (RGBAPixel
                       (mix4 nwArea (r p1) neArea (r p2) swArea (r p3) seArea (r p4) totalArea)
                       (mix4 nwArea (g p1) neArea (g p2) swArea (g p3) seArea (g p4) totalArea)
                       (mix4 nwArea (b p1) neArea (b p2) swArea (b p3) seArea (b p4) totalArea))
                    nw ne sw se))
             | _ \<Rightarrow> None)
        | _ \<Rightarrow> None))"

text \<open>
  \<^verbatim>\<open>BuildNode(img, ul, lr)\<close>.  The constructor calls it on the rectangle of a
  non-empty image, and then every recursive call is on a rectangle of width and height at
  least 1.  On any other rectangle the recursion of the source does not end; that is the
  value \<open>None\<close>.
\<close>

function BuildNode :: "PNG \<Rightarrow> point \<Rightarrow> point \<Rightarrow> node option" where
  "BuildNode img ul lr =
    (let x = fst lr - fst ul + 1;
         y = snd lr - snd ul + 1;
         halfw = ceil_half x;
         halfh = ceil_half y
     in
     if x < 1 \<or> y < 1 then None
     else if x = 1 \<and> y = 1 then
       Some (Node ul lr (getPixel img (fst ul) (snd ul)) Null Null Null Null)
     else if x = 1 \<and> y \<noteq> 1 then
       (case BuildNode img ul (fst ul + halfw - 1, snd ul + halfh - 1) of None \<Rightarrow> None
        | Some nw \<Rightarrow>
       (case BuildNode img (fst ul, snd ul + halfh) (fst ul + halfw - 1, snd lr) of None \<Rightarrow> None
        | Some sw \<Rightarrow>
          assignColor (Node ul lr RGBAPixel_default nw Null sw Null) ''v''))
     else if y = 1 \<and> x \<noteq> 1 then
       (case BuildNode img ul (fst ul + halfw - 1, snd ul + halfh - 1) of None \<Rightarrow> None
        | Some nw \<Rightarrow>
       (case BuildNode img (fst ul + halfw, snd ul) (fst lr, snd ul + halfh - 1) of None \<Rightarrow> None
        | Some ne \<Rightarrow>
          assignColor (Node ul lr RGBAPixel_default nw ne Null Null) ''h''))
     else
       (case BuildNode img ul (fst ul + halfw - 1, snd ul + halfh - 1) of None \<Rightarrow> None
        | Some nw \<Rightarrow>
       (case BuildNode img (fst ul + halfw, snd ul) (fst lr, snd ul + halfh - 1) of None \<Rightarrow> None
        | Some ne \<Rightarrow>
       (case BuildNode img (fst ul, snd ul + halfh) (fst ul + halfw - 1, snd lr) of None \<Rightarrow> None
        | Some sw \<Rightarrow>
       (case BuildNode img (fst ul + halfw, snd ul + halfh) lr of None \<Rightarrow> None
        | Some se \<Rightarrow>
          assignColor (Node ul lr RGBAPixel_default nw ne sw se) ''else'')))))"
  by pat_completeness auto

lemma ceil_half_div [code]: "ceil_half x = (x + 1) div 2"
proof -
  have "real_of_int x / 2 = real_of_int x / real_of_int 2" by simp
  then have "\<lceil>real_of_int x / 2\<rceil> = - ((- x) div 2)"
    by (simp only: ceiling_divide_eq_div)
  then show ?thesis unfolding ceil_half_def by linarith
qed

termination BuildNode
proof (relation "measure (\<lambda>(img, ul, lr).
          nat (fst lr - fst ul + 1) + nat (snd lr - snd ul + 1))", goal_cases)
  case 1
  show ?case by simp
qed (auto simp: ceil_half_div)

declare BuildNode.simps [simp del]

text \<open>The constructor \<^verbatim>\<open>QTree(const PNG& imIn)\<close>.\<close>

definition QTree_of_PNG :: "PNG \<Rightarrow> QTree option" where
  "QTree_of_PNG imIn =
     (let height = pngHeight imIn; width = pngWidth imIn in
      case BuildNode imIn (0, 0) (width - 1, height - 1) of None \<Rightarrow> None
      | Some t \<Rightarrow> Some \<lparr>height = height, width = width, root = t\<rparr>)"

section \<open>Rendering\<close>

text \<open>
  \<^verbatim>\<open>RenderPixel(img, node, scale)\<close>: every node, internal or leaf, paints before its
  children do.  With \<open>scale = 1\<close> the two loops run over the node's rectangle; otherwise
  they run over \<open>i, j < scale\<close> and paint the pixels
  \<open>(upLeft.first * scale + i, upLeft.second * scale + j)\<close>.
\<close>

fun RenderPixel :: "PNG \<Rightarrow> node \<Rightarrow> int \<Rightarrow> PNG" where
  "RenderPixel img Null scale = img"
| "RenderPixel img (Node ul lr a nw ne sw se) scale =
    (let x = fst lr - fst ul + 1;
         y = snd lr - snd ul + 1;
         img1 =
           (if scale = 1 then
              fold (\<lambda>i. fold (\<lambda>j im. setPixel im i j a) [snd ul..snd ul + y - 1])
                [fst ul..fst ul + x - 1] img
            else
              fold (\<lambda>i. fold (\<lambda>j im. setPixel im (fst ul * scale + i) (snd ul * scale + j) a)
                     [0..scale - 1])
                [0..scale - 1] img);
         img2 = RenderPixel img1 nw scale;
         img3 = RenderPixel img2 ne scale;
         img4 = RenderPixel img3 sw scale
     in RenderPixel img4 se scale)"

definition Render :: "QTree \<Rightarrow> int \<Rightarrow> PNG" where
  "Render q scale = RenderPixel (newPNG (width q * scale) (height q * scale)) (root q) scale"

section \<open>Pruning\<close>

text \<open>
  The colour distance \<^verbatim>\<open>RGBAPixel::distanceTo\<close> belongs to the external pixel class;
  it is a parameter \<open>distanceTo\<close> of the pruning functions, and the tolerance is a real
  number.
\<close>

fun shouldPrune :: "(RGBAPixel \<Rightarrow> RGBAPixel \<Rightarrow> real) \<Rightarrow> node \<Rightarrow> RGBAPixel \<Rightarrow> real \<Rightarrow> bool" where
  "shouldPrune distanceTo Null a tolerance = True"
| "shouldPrune distanceTo (Node ul lr av nw ne sw se) a tolerance =
    (if nw = Null \<and> ne = Null \<and> sw = Null \<and> se = Null then distanceTo av a \<le> tolerance
     else shouldPrune distanceTo nw a tolerance \<and> shouldPrune distanceTo ne a tolerance
        \<and> shouldPrune distanceTo sw a tolerance \<and> shouldPrune distanceTo se a tolerance)"

fun DeleteChildren :: "node \<Rightarrow> node" where
  "DeleteChildren Null = Null"
| "DeleteChildren (Node ul lr a nw ne sw se) =
    (if nw = Null \<and> ne = Null \<and> sw = Null \<and> se = Null then Node ul lr a nw ne sw se
     else
       (let nw1 = DeleteChildren nw; ne1 = DeleteChildren ne;
            sw1 = DeleteChildren sw; se1 = DeleteChildren se
        in Node ul lr a (if nw1 \<noteq> Null then Null else nw1) (if ne1 \<noteq> Null then Null else ne1)
             (if sw1 \<noteq> Null then Null else sw1) (if se1 \<noteq> Null then Null else se1)))"

lemma DeleteChildren_Node [simp]:
  "DeleteChildren (Node ul lr a nw ne sw se) = Node ul lr a Null Null Null Null"
  by (simp add: Let_def)

declare DeleteChildren.simps(2) [simp del]

text \<open>The number of nodes of a subtree.\<close>

fun countNodes :: "node \<Rightarrow> nat" where
  "countNodes Null = 0"
| "countNodes (Node ul lr a nw ne sw se) = 1 + countNodes nw + countNodes ne + countNodes sw + countNodes se"

function PruneNode :: "(RGBAPixel \<Rightarrow> RGBAPixel \<Rightarrow> real) \<Rightarrow> node \<Rightarrow> real \<Rightarrow> node" where
  "PruneNode distanceTo Null tolerance = Null"
| "PruneNode distanceTo (Node ul lr a nw ne sw se) tolerance =
    (if nw = Null \<and> ne = Null \<and> sw = Null \<and> se = Null then Node ul lr a nw ne sw se
     else if shouldPrune distanceTo (Node ul lr a nw ne sw se) a tolerance then
       (case DeleteChildren (Node ul lr a nw ne sw se) of
          Null \<Rightarrow> Null
        | Node ul1 lr1 a1 nw1 ne1 sw1 se1 \<Rightarrow>
            Node ul1 lr1 a1 (PruneNode distanceTo nw1 tolerance) (PruneNode distanceTo ne1 tolerance)
              (PruneNode distanceTo sw1 tolerance) (PruneNode distanceTo se1 tolerance))
     else
       Node ul lr a (PruneNode distanceTo nw tolerance) (PruneNode distanceTo ne tolerance)
         (PruneNode distanceTo sw tolerance) (PruneNode distanceTo se tolerance))"
  by pat_completeness auto

termination PruneNode
  by (relation "measure (\<lambda>(d, t, tol). countNodes t)") auto

definition Prune :: "(RGBAPixel \<Rightarrow> RGBAPixel \<Rightarrow> real) \<Rightarrow> QTree \<Rightarrow> real \<Rightarrow> QTree" where
  "Prune distanceTo q tolerance = q\<lparr>root := PruneNode distanceTo (root q) tolerance\<rparr>"

section \<open>Horizontal flip\<close>

text \<open>Overwriting the two corners of the node behind a non-null pointer.\<close>

fun setCorners :: "node \<Rightarrow> point \<Rightarrow> point \<Rightarrow> node" where
  "setCorners Null ul' lr' = Null"
| "setCorners (Node ul lr a nw ne sw se) ul' lr' = Node ul' lr' a nw ne sw se"

text \<open>
  \<^verbatim>\<open>positionNormal(subtree, width1, height1)\<close> dereferences \<open>subtree\<close>; \<open>None\<close> is
  the null dereference.
\<close>

fun positionNormal :: "node \<Rightarrow> int \<Rightarrow> int \<Rightarrow> node option" where
  "positionNormal Null width1 height1 = None"
| "positionNormal (Node ul lr a nw ne sw se) width1 height1 =
    (let ne1 = (if ne \<noteq> Null
                then setCorners ne (fst lr - width1 + 1, snd ul) (fst lr, snd ul + height1 - 1)
                else ne);
         nw1 = (if nw \<noteq> Null
                then setCorners nw (fst ul, snd ul) (fst lr - width1, snd ul + height1 - 1)
                else nw);
         se1 = (if se \<noteq> Null
                then setCorners se (fst lr - width1 + 1, snd ul + height1) (fst lr, snd lr)
                else se);
         sw1 = (if sw \<noteq> Null
                then setCorners sw (fst ul, snd ul + height1) (fst lr - width1, snd lr)
                else sw)
     in Some (Node ul lr a nw1 ne1 sw1 se1))"

lemma countNodes_setCorners [simp]: "countNodes (setCorners t ul lr) = countNodes t"
  by (cases t) simp_all

lemma positionNormal_countNodes:
  "positionNormal t w h = Some (Node ul lr a nw ne sw se) \<Longrightarrow>
     countNodes nw < countNodes t \<and> countNodes ne < countNodes t \<and> countNodes sw < countNodes t \<and> countNodes se < countNodes t"
  by (cases t) (auto simp: Let_def)

text \<open>
  \<^verbatim>\<open>FlipNode(subtree)\<close>.  The split is read from the first child the case names,
  without a null check.
\<close>

function FlipNode :: "node \<Rightarrow> node option" where
  "FlipNode Null = Some Null"
| "FlipNode (Node ul lr a nw ne sw se) =
    (if nw = Null \<and> ne = Null \<and> sw = Null \<and> se = Null then Some (Node ul lr a nw ne sw se)
     else
       (case
          (if nw = Null \<and> sw = Null then
             (case (nodeWidth ne, nodeHeight ne) of
                (Some w, Some h) \<Rightarrow> Some (fst lr - fst ul + 1 - w, h)
              | _ \<Rightarrow> None)
           else if nw = Null \<and> ne = Null then
             (case (nodeWidth sw, nodeHeight sw) of
                (Some w, Some h) \<Rightarrow> Some (w, snd lr - snd ul + 1 - h)
              | _ \<Rightarrow> None)
           else
             (case (nodeWidth nw, nodeHeight nw) of
                (Some w, Some h) \<Rightarrow> Some (w, h)
              | _ \<Rightarrow> None))
        of None \<Rightarrow> None
         | Some (width1, height1) \<Rightarrow>
            (case positionNormal (Node ul lr a ne nw se sw) width1 height1 of
               None \<Rightarrow> None
             | Some Null \<Rightarrow> None
             | Some (Node ul1 lr1 a1 nw1 ne1 sw1 se1) \<Rightarrow>
                (case FlipNode nw1 of None \<Rightarrow> None | Some nw2 \<Rightarrow>
                (case FlipNode ne1 of None \<Rightarrow> None | Some ne2 \<Rightarrow>
                (case FlipNode sw1 of None \<Rightarrow> None | Some sw2 \<Rightarrow>
                (case FlipNode se1 of None \<Rightarrow> None | Some se2 \<Rightarrow>
                   Some (Node ul1 lr1 a1 nw2 ne2 sw2 se2))))))))"
  by pat_completeness auto

termination FlipNode
  by (relation "measure countNodes")
    (auto dest!: positionNormal_countNodes simp del: positionNormal.simps)

definition FlipHorizontal :: "QTree \<Rightarrow> QTree option" where
  "FlipHorizontal q =
     (case FlipNode (root q) of None \<Rightarrow> None | Some t \<Rightarrow> Some (q\<lparr>root := t\<rparr>))"

section \<open>Rotation by 90 degrees counter-clockwise\<close>

text \<open>
  \<^verbatim>\<open>coordinateHelper(subtree, width1, width2, height1)\<close>; \<open>width1\<close> is passed and never
  read.
\<close>

fun coordinateHelper :: "node \<Rightarrow> int \<Rightarrow> int \<Rightarrow> int \<Rightarrow> node option" where
  "coordinateHelper Null width1 width2 height1 = None"
| "coordinateHelper (Node ul lr a nw ne sw se) width1 width2 height1 =
    (let nw1 = (if nw \<noteq> Null
                then setCorners nw (fst ul, snd ul + width2) (fst ul + height1 - 1, snd lr)
                else nw);
         ne1 = (if ne \<noteq> Null
                then setCorners ne (fst ul, snd ul) (fst ul + height1 - 1, snd ul + width2 - 1)
                else ne);
         sw1 = (if sw \<noteq> Null
                then setCorners sw (fst ul + height1, snd ul + width2) (fst lr, snd lr)
                else sw);
         se1 = (if se \<noteq> Null
                then setCorners se (fst ul + height1, snd ul) (fst lr, snd ul + width2 - 1)
                else se)
     in Some (Node ul lr a nw1 ne1 sw1 se1))"

lemma coordinateHelper_countNodes:
  "coordinateHelper t w1 w2 h = Some (Node ul lr a nw ne sw se) \<Longrightarrow>
     countNodes nw < countNodes t \<and> countNodes ne < countNodes t
       \<and> countNodes sw < countNodes t \<and> countNodes se < countNodes t"
  by (cases t) (auto simp: Let_def)

text \<open>
  \<^verbatim>\<open>RotateSubtree(subtree)\<close>.  The node's own rectangle already has its new corners;
  the children still have the old ones.  After \<^verbatim>\<open>coordinateHelper\<close> the pointers are
  cycled: \<open>NW\<close> becomes the old \<open>NE\<close>, \<open>NE\<close> the old \<open>SE\<close>, \<open>SW\<close> the old \<open>NW\<close>,
  \<open>SE\<close> the old \<open>SW\<close>.
\<close>

function RotateSubtree :: "node \<Rightarrow> node option" where
  "RotateSubtree Null = Some Null"
| "RotateSubtree (Node ul lr a nw ne sw se) =
    (if nw = Null \<and> ne = Null \<and> sw = Null \<and> se = Null then Some (Node ul lr a nw ne sw se)
     else
       (case
          (if nw = Null \<and> sw = Null then
             (case (nodeWidth ne, nodeHeight ne) of
                (Some w, Some h) \<Rightarrow> Some (snd lr - snd ul + 1 - w, w, h)
              | _ \<Rightarrow> None)
           else if nw = Null \<and> ne = Null then
             (case (nodeWidth sw, nodeWidth se, nodeHeight sw) of
                (Some w1, Some w2, Some h) \<Rightarrow> Some (w1, w2, fst lr - fst ul + 1 - h)
              | _ \<Rightarrow> None)
           else if ne = Null \<and> se = Null then
             (case (nodeWidth nw, nodeHeight nw) of
                (Some w, Some h) \<Rightarrow> Some (w, snd lr - snd ul + 1 - w, h)
              | _ \<Rightarrow> None)
           else
             (case (nodeWidth nw, nodeWidth ne, nodeHeight nw) of
                (Some w1, Some w2, Some h) \<Rightarrow> Some (w1, w2, h)
              | _ \<Rightarrow> None))
        of None \<Rightarrow> None
         | Some (width1, width2, height1) \<Rightarrow>
            (case coordinateHelper (Node ul lr a nw ne sw se) width1 width2 height1 of
               None \<Rightarrow> None
             | Some Null \<Rightarrow> None
             | Some (Node ul1 lr1 a1 nw1 ne1 sw1 se1) \<Rightarrow>
                (case RotateSubtree ne1 of None \<Rightarrow> None | Some nw2 \<Rightarrow>
                (case RotateSubtree se1 of None \<Rightarrow> None | Some ne2 \<Rightarrow>
                (case RotateSubtree nw1 of None \<Rightarrow> None | Some sw2 \<Rightarrow>
                (case RotateSubtree sw1 of None \<Rightarrow> None | Some se2 \<Rightarrow>
                   Some (Node ul1 lr1 a1 nw2 ne2 sw2 se2))))))))"
  by pat_completeness auto

termination RotateSubtree
  by (relation "measure countNodes")
    (auto dest!: coordinateHelper_countNodes simp del: coordinateHelper.simps)

text \<open>
  \<^verbatim>\<open>RotateCCW()\<close> swaps the stored width and height and the two coordinates of the
  root's lower right corner, dereferencing the root.
\<close>

definition RotateCCW :: "QTree \<Rightarrow> QTree option" where
  "RotateCCW q =
     (case root q of
        Null \<Rightarrow> None
      | Node ul lr a nw ne sw se \<Rightarrow>
          (case RotateSubtree (Node ul (snd lr, fst lr) a nw ne sw se) of
             None \<Rightarrow> None
           | Some t \<Rightarrow> Some \<lparr>height = width q, width = height q, root = t\<rparr>))"

section \<open>Notions used to state the properties\<close>

subsection \<open>Leaf rectangles and partitions\<close>

text \<open>
  A rectangle is its inclusive upper left and lower right corner.  The leaves of a tree are
  the nodes all of whose child pointers are null; \<open>leafRects\<close> lists their rectangles.
  A list of rectangles partitions a rectangle when every member is non-empty, no two
  members (at different positions of the list) share a point, and the points of the
  members are exactly the points of the rectangle.
\<close>

type_synonym rect = "point \<times> point"

definition inRect :: "point \<Rightarrow> rect \<Rightarrow> bool" where
  "inRect p rc \<longleftrightarrow> fst (fst rc) \<le> fst p \<and> fst p \<le> fst (snd rc)
      \<and> snd (fst rc) \<le> snd p \<and> snd p \<le> snd (snd rc)"

fun leafRects :: "node \<Rightarrow> rect list" where
  "leafRects Null = []"
| "leafRects (Node ul lr a nw ne sw se) =
    (if nw = Null \<and> ne = Null \<and> sw = Null \<and> se = Null then [(ul, lr)]
     else leafRects nw @ leafRects ne @ leafRects sw @ leafRects se)"

definition partitions :: "rect list \<Rightarrow> rect \<Rightarrow> bool" where
  "partitions rs full \<longleftrightarrow>
     (\<forall>rc \<in> set rs. fst (fst rc) \<le> fst (snd rc) \<and> snd (fst rc) \<le> snd (snd rc))
   \<and> (\<forall>i < length rs. \<forall>j < length rs. i \<noteq> j \<longrightarrow> \<not> (\<exists>p. inRect p (rs ! i) \<and> inRect p (rs ! j)))
   \<and> (\<forall>p. inRect p full \<longleftrightarrow> (\<exists>rc \<in> set rs. inRect p rc))"

subsection \<open>Trees the program can hold\<close>

text \<open>
  A tree is built from a non-empty image of fewer than \<open>2^31\<close> pixels and then pruned,
  flipped and rotated any number of times, in any order.  On such an image every width,
  height and area that the program computes in \<^verbatim>\<open>int\<close> or \<^verbatim>\<open>unsigned int\<close> is the
  exact value.
\<close>

inductive reachable :: "(RGBAPixel \<Rightarrow> RGBAPixel \<Rightarrow> real) \<Rightarrow> QTree \<Rightarrow> bool"
  for d :: "RGBAPixel \<Rightarrow> RGBAPixel \<Rightarrow> real" where
  reach_build: "0 < pngWidth img \<Longrightarrow> 0 < pngHeight img \<Longrightarrow>
     pngWidth img * pngHeight img < 2147483648 \<Longrightarrow> QTree_of_PNG img = Some q \<Longrightarrow>
     reachable d q"
| reach_prune: "reachable d q \<Longrightarrow> reachable d (Prune d q tol)"
| reach_flip: "reachable d q \<Longrightarrow> FlipHorizontal q = Some q' \<Longrightarrow> reachable d q'"
| reach_rotate: "reachable d q \<Longrightarrow> RotateCCW q = Some q' \<Longrightarrow> reachable d q'"

subsection \<open>Coordinates inside the image\<close>

text \<open>
  \<open>inFrame w h t\<close>: every node of \<open>t\<close> has a non-empty rectangle whose corners lie
  inside an image of width \<open>w\<close> and height \<open>h\<close>.
\<close>

fun inFrame :: "int \<Rightarrow> int \<Rightarrow> node \<Rightarrow> bool" where
  "inFrame w h Null = True"
| "inFrame w h (Node ul lr a nw ne sw se) =
     (0 \<le> fst ul \<and> fst ul \<le> fst lr \<and> fst lr < w
      \<and> 0 \<le> snd ul \<and> snd ul \<le> snd lr \<and> snd lr < h
      \<and> inFrame w h nw \<and> inFrame w h ne \<and> inFrame w h sw \<and> inFrame w h se)"

subsection \<open>Block replication\<close>

text \<open>
  The image \<open>img\<close> with every pixel replaced by a \<open>k\<close> by \<open>k\<close> block of that pixel.
\<close>

definition blockReplicate :: "PNG \<Rightarrow> int \<Rightarrow> PNG" where
  "blockReplicate img k =
     \<lparr>pngWidth = pngWidth img * k, pngHeight = pngHeight img * k,
      pngData = (\<lambda>x y. if 0 \<le> x \<and> x < pngWidth img * k \<and> 0 \<le> y \<and> y < pngHeight img * k
                        then pngData img (x div k) (y div k) else RGBAPixel_default)\<rparr>"

subsection \<open>Pruning as the specification words it\<close>



subsection \<open>The split rule\<close>

text \<open>
  \<open>splitRule img t\<close> holds when every node of \<open>t\<close> is split as the constructor is
  documented to split it, with the divider at the rounded-up half of the width and of
  the height, and every one by one node is a leaf that carries the image's pixel.
\<close>

fun hasRect :: "node \<Rightarrow> point \<Rightarrow> point \<Rightarrow> bool" where
  "hasRect Null ul' lr' = False"
| "hasRect (Node ul lr a nw ne sw se) ul' lr' = (ul = ul' \<and> lr = lr')"

fun splitRule :: "PNG \<Rightarrow> node \<Rightarrow> bool" where
  "splitRule img Null = True"
| "splitRule img (Node ul lr a nw ne sw se) =
    (let w = fst lr - fst ul + 1; h = snd lr - snd ul + 1;
         halfW = \<lceil>real_of_int w / 2\<rceil>; halfH = \<lceil>real_of_int h / 2\<rceil>;
         x0 = fst ul; y0 = snd ul; x1 = fst lr; y1 = snd lr
     in splitRule img nw \<and> splitRule img ne \<and> splitRule img sw \<and> splitRule img se \<and>
       (if w = 1 \<and> h = 1 then
          nw = Null \<and> ne = Null \<and> sw = Null \<and> se = Null \<and> a = getPixel img x0 y0
        else if w = 1 \<and> h > 1 then
          ne = Null \<and> se = Null
          \<and> hasRect nw (x0, y0) (x0, y0 + halfH - 1) \<and> hasRect sw (x0, y0 + halfH) (x0, y1)
        else if h = 1 \<and> w > 1 then
          sw = Null \<and> se = Null
          \<and> hasRect nw (x0, y0) (x0 + halfW - 1, y0) \<and> hasRect ne (x0 + halfW, y0) (x1, y0)
        else
          w > 1 \<and> h > 1
          \<and> hasRect nw (x0, y0) (x0 + halfW - 1, y0 + halfH - 1)
          \<and> hasRect ne (x0 + halfW, y0) (x1, y0 + halfH - 1)
          \<and> hasRect sw (x0, y0 + halfH) (x0 + halfW - 1, y1)
          \<and> hasRect se (x0 + halfW, y0 + halfH) (x1, y1)))"

subsection \<open>The area-weighted mean\<close>

text \<open>
  The mean of a channel over the direct children of a node, weighted by the area of each
  child's rectangle, in unbounded integer arithmetic; a null child counts for nothing.
  \<open>avgRule t\<close> holds when every internal node of \<open>t\<close> stores that mean in each of its
  three channels.
\<close>

fun rectArea :: "node \<Rightarrow> int" where
  "rectArea Null = 0"
| "rectArea (Node ul lr a nw ne sw se) = (fst lr - fst ul + 1) * (snd lr - snd ul + 1)"

fun weighted :: "(RGBAPixel \<Rightarrow> 8 word) \<Rightarrow> node \<Rightarrow> int" where
  "weighted ch Null = 0"
| "weighted ch (Node ul lr a nw ne sw se) =
     (fst lr - fst ul + 1) * (snd lr - snd ul + 1) * uint (ch a)"

definition areaMean :: "(RGBAPixel \<Rightarrow> 8 word) \<Rightarrow> node \<Rightarrow> node \<Rightarrow> node \<Rightarrow> node \<Rightarrow> int" where
  "areaMean ch nw ne sw se =
     (weighted ch nw + weighted ch ne + weighted ch sw + weighted ch se)
       div (rectArea nw + rectArea ne + rectArea sw + rectArea se)"

fun avgRule :: "node \<Rightarrow> bool" where
  "avgRule Null = True"
| "avgRule (Node ul lr a nw ne sw se) =
    (avgRule nw \<and> avgRule ne \<and> avgRule sw \<and> avgRule se \<and>
     (if nw = Null \<and> ne = Null \<and> sw = Null \<and> se = Null then True
      else uint (r a) = areaMean r nw ne sw se \<and> uint (g a) = areaMean g nw ne sw se
         \<and> uint (b a) = areaMean b nw ne sw se))"

subsection \<open>Colours of a tree, and child permutations\<close>

text \<open>
  \<open>avgs\<close> is the multiset of the colours stored in the nodes of a tree.  \<open>unplaced\<close>
  forgets the rectangles of a tree and keeps its colours and its child pointers.
  \<open>swapEW\<close> exchanges the western and the eastern children at every node;
  \<open>cycleCCW\<close> moves, at every node, the north-east child to north-west, south-east to
  north-east, north-west to south-west and south-west to south-east.
\<close>

fun avgs :: "node \<Rightarrow> RGBAPixel multiset" where
  "avgs Null = {#}"
| "avgs (Node ul lr a nw ne sw se) = {#a#} + avgs nw + avgs ne + avgs sw + avgs se"

fun unplaced :: "node \<Rightarrow> node" where
  "unplaced Null = Null"
| "unplaced (Node ul lr a nw ne sw se) =
     Node (0, 0) (0, 0) a (unplaced nw) (unplaced ne) (unplaced sw) (unplaced se)"

fun swapEW :: "node \<Rightarrow> node" where
  "swapEW Null = Null"
| "swapEW (Node ul lr a nw ne sw se) = Node ul lr a (swapEW ne) (swapEW nw) (swapEW se) (swapEW sw)"

fun cycleCCW :: "node \<Rightarrow> node" where
  "cycleCCW Null = Null"
| "cycleCCW (Node ul lr a nw ne sw se) =
     Node ul lr a (cycleCCW ne) (cycleCCW se) (cycleCCW nw) (cycleCCW sw)"

subsection \<open>Concrete inputs\<close>

text \<open>
  The two by two image of the specification's scenario, the tree the constructor builds
  from it, a four thousand by three thousand image that is white everywhere, and a sample
  colour distance (Euclidean in the three channels) to instantiate the distance parameter
  where a concrete one is needed.
\<close>

definition scenario_image :: PNG where
  "scenario_image = \<lparr>pngWidth = 2, pngHeight = 2, pngData = (\<lambda>x y.
     if x = 0 \<and> y = 0 then RGBAPixel 255 0 0
     else if x = 1 \<and> y = 0 then RGBAPixel 0 255 0
     else if x = 0 \<and> y = 1 then RGBAPixel 0 0 255
     else RGBAPixel 255 255 0)\<rparr>"

definition scenario_root :: node where
  "scenario_root = Node (0, 0) (1, 1) (RGBAPixel 127 127 63)
     (Node (0, 0) (0, 0) (RGBAPixel 255 0 0) Null Null Null Null)
     (Node (1, 0) (1, 0) (RGBAPixel 0 255 0) Null Null Null Null)
     (Node (0, 1) (0, 1) (RGBAPixel 0 0 255) Null Null Null Null)
     (Node (1, 1) (1, 1) (RGBAPixel 255 255 0) Null Null Null Null)"

definition scenario_tree :: QTree where
  "scenario_tree = \<lparr>height = 2, width = 2, root = scenario_root\<rparr>"

definition white_image :: PNG where
  "white_image = \<lparr>pngWidth = 4000, pngHeight = 3000, pngData = (\<lambda>x y. RGBAPixel 255 255 255)\<rparr>"

definition euclid :: "RGBAPixel \<Rightarrow> RGBAPixel \<Rightarrow> real" where
  "euclid p q = sqrt (real_of_int ((uint (r p) - uint (r q))\<^sup>2 + (uint (g p) - uint (g q))\<^sup>2
      + (uint (b p) - uint (b q))\<^sup>2))"

text \<open>
  A three by two image with six different colours, the tree the constructor builds from
  it (\<open>sample_tree\<close>), that tree after FlipHorizontal (\<open>sample_flipped\<close>), after
  FlipHorizontal and then RotateCCW (\<open>sample_turned\<close>, two wide and three high, with six
  leaves), and the latter after one more FlipHorizontal (\<open>sample_turned_flipped\<close>).
\<close>

definition sample_image :: PNG where
  "sample_image = \<lparr>pngWidth = 3, pngHeight = 2, pngData = (\<lambda>x y.
     if x = 0 \<and> y = 0 then RGBAPixel 10 20 30
     else if x = 1 \<and> y = 0 then RGBAPixel 40 50 60
     else if x = 2 \<and> y = 0 then RGBAPixel 70 80 90
     else if x = 0 \<and> y = 1 then RGBAPixel 100 110 120
     else if x = 1 \<and> y = 1 then RGBAPixel 130 140 150
     else RGBAPixel 160 170 180)\<rparr>"

definition sample_tree :: QTree where
  "sample_tree = \<lparr>height = 2, width = 3, root =
     Node (0, 0) (2, 1) (RGBAPixel 85 95 105)
       (Node (0, 0) (1, 0) (RGBAPixel 25 35 45)
          (Node (0, 0) (0, 0) (RGBAPixel 10 20 30) Null Null Null Null)
          (Node (1, 0) (1, 0) (RGBAPixel 40 50 60) Null Null Null Null) Null Null)
       (Node (2, 0) (2, 0) (RGBAPixel 70 80 90) Null Null Null Null)
       (Node (0, 1) (1, 1) (RGBAPixel 115 125 135)
          (Node (0, 1) (0, 1) (RGBAPixel 100 110 120) Null Null Null Null)
          (Node (1, 1) (1, 1) (RGBAPixel 130 140 150) Null Null Null Null) Null Null)
       (Node (2, 1) (2, 1) (RGBAPixel 160 170 180) Null Null Null Null)\<rparr>"

definition sample_flipped :: QTree where
  "sample_flipped = \<lparr>height = 2, width = 3, root =
     Node (0, 0) (2, 1) (RGBAPixel 85 95 105)
       (Node (0, 0) (0, 0) (RGBAPixel 70 80 90) Null Null Null Null)
       (Node (1, 0) (2, 0) (RGBAPixel 25 35 45)
          (Node (1, 0) (1, 0) (RGBAPixel 40 50 60) Null Null Null Null)
          (Node (2, 0) (2, 0) (RGBAPixel 10 20 30) Null Null Null Null) Null Null)
       (Node (0, 1) (0, 1) (RGBAPixel 160 170 180) Null Null Null Null)
       (Node (1, 1) (2, 1) (RGBAPixel 115 125 135)
          (Node (1, 1) (1, 1) (RGBAPixel 130 140 150) Null Null Null Null)
          (Node (2, 1) (2, 1) (RGBAPixel 100 110 120) Null Null Null Null) Null Null)\<rparr>"

definition sample_turned :: QTree where
  "sample_turned = \<lparr>height = 3, width = 2, root =
     Node (0, 0) (1, 2) (RGBAPixel 85 95 105)
       (Node (0, 0) (0, 1) (RGBAPixel 25 35 45)
          (Node (0, 0) (0, 0) (RGBAPixel 10 20 30) Null Null Null Null) Null
          (Node (0, 1) (0, 1) (RGBAPixel 40 50 60) Null Null Null Null) Null)
       (Node (1, 0) (1, 1) (RGBAPixel 115 125 135)
          (Node (1, 0) (1, 0) (RGBAPixel 100 110 120) Null Null Null Null) Null
          (Node (1, 1) (1, 1) (RGBAPixel 130 140 150) Null Null Null Null) Null)
       (Node (0, 2) (0, 2) (RGBAPixel 70 80 90) Null Null Null Null)
       (Node (1, 2) (1, 2) (RGBAPixel 160 170 180) Null Null Null Null)\<rparr>"

definition sample_turned_flipped :: QTree where
  "sample_turned_flipped = \<lparr>height = 3, width = 2, root =
     Node (0, 0) (1, 2) (RGBAPixel 85 95 105)
       (Node (0, 0) (0, 1) (RGBAPixel 115 125 135) Null
          (Node (0, 0) (0, 0) (RGBAPixel 100 110 120) Null Null Null Null) Null
          (Node (0, 1) (0, 1) (RGBAPixel 130 140 150) Null Null Null Null))
       (Node (1, 0) (1, 1) (RGBAPixel 25 35 45) Null
          (Node (1, 0) (1, 0) (RGBAPixel 10 20 30) Null Null Null Null) Null
          (Node (1, 1) (1, 1) (RGBAPixel 40 50 60) Null Null Null Null))
       (Node (0, 2) (0, 2) (RGBAPixel 160 170 180) Null Null Null Null)
       (Node (1, 2) (1, 2) (RGBAPixel 70 80 90) Null Null Null Null)\<rparr>"

section \<open>Trees produced by the constructor\<close>

text \<open>
  \<open>built img t\<close>: the tree \<open>t\<close> arises from the four cases of \<^verbatim>\<open>BuildNode\<close> on
  the image \<open>img\<close>.  Properties of freshly built trees are proved by induction on this
  predicate, once \<^verbatim>\<open>BuildNode\<close> is shown to return such a tree on every non-empty
  rectangle.
\<close>

inductive built :: "PNG \<Rightarrow> node \<Rightarrow> bool" for img :: PNG where
  built_leaf: "built img (Node (x, y) (x, y) (getPixel img x y) Null Null Null Null)"
| built_v: "y0 < y1 \<Longrightarrow> hh = ceil_half (y1 - y0 + 1) \<Longrightarrow> built img nw \<Longrightarrow> built img sw \<Longrightarrow>
     upLeft nw = (x, y0) \<Longrightarrow> lowRight nw = (x, y0 + hh - 1) \<Longrightarrow>
     upLeft sw = (x, y0 + hh) \<Longrightarrow> lowRight sw = (x, y1) \<Longrightarrow>
     assignColor (Node (x, y0) (x, y1) RGBAPixel_default nw Null sw Null) ''v'' = Some t \<Longrightarrow>
     built img t"
| built_h: "x0 < x1 \<Longrightarrow> hw = ceil_half (x1 - x0 + 1) \<Longrightarrow> built img nw \<Longrightarrow> built img ne \<Longrightarrow>
     upLeft nw = (x0, y) \<Longrightarrow> lowRight nw = (x0 + hw - 1, y) \<Longrightarrow>
     upLeft ne = (x0 + hw, y) \<Longrightarrow> lowRight ne = (x1, y) \<Longrightarrow>
     assignColor (Node (x0, y) (x1, y) RGBAPixel_default nw ne Null Null) ''h'' = Some t \<Longrightarrow>
     built img t"
| built_q: "x0 < x1 \<Longrightarrow> y0 < y1 \<Longrightarrow> hw = ceil_half (x1 - x0 + 1) \<Longrightarrow> hh = ceil_half (y1 - y0 + 1) \<Longrightarrow>
     built img nw \<Longrightarrow> built img ne \<Longrightarrow> built img sw \<Longrightarrow> built img se \<Longrightarrow>
     upLeft nw = (x0, y0) \<Longrightarrow> lowRight nw = (x0 + hw - 1, y0 + hh - 1) \<Longrightarrow>
     upLeft ne = (x0 + hw, y0) \<Longrightarrow> lowRight ne = (x1, y0 + hh - 1) \<Longrightarrow>
     upLeft sw = (x0, y0 + hh) \<Longrightarrow> lowRight sw = (x0 + hw - 1, y1) \<Longrightarrow>
     upLeft se = (x0 + hw, y0 + hh) \<Longrightarrow> lowRight se = (x1, y1) \<Longrightarrow>
     assignColor (Node (x0, y0) (x1, y1) RGBAPixel_default nw ne sw se) ''else'' = Some t \<Longrightarrow>
     built img t"

section \<open>Shapes\<close>

text \<open>
  A shape is a tree that records the width and height of every node instead of its
  corners.  \<open>place x y s\<close> lays a shape out with its upper left corner at \<open>(x, y)\<close>:
  western children are aligned to the left edge of their parent, eastern children to the
  right edge, northern children to the top, southern children to the bottom.  \<open>shp s\<close>
  says that the sizes fit: every node is a leaf, or has four children that share the
  dividers, or two children side by side or one above the other that span the node.
  \<open>sflip\<close> and \<open>srot\<close> are the mirror image and the quarter turn of a shape.
\<close>

datatype shape = SNull | SNode int int RGBAPixel shape shape shape shape

fun swidth :: "shape \<Rightarrow> int" where
  "swidth SNull = 0"
| "swidth (SNode w h a nw ne sw se) = w"

fun sheight :: "shape \<Rightarrow> int" where
  "sheight SNull = 0"
| "sheight (SNode w h a nw ne sw se) = h"

fun place :: "int \<Rightarrow> int \<Rightarrow> shape \<Rightarrow> node" where
  "place x y SNull = Null"
| "place x y (SNode w h a nw ne sw se) =
     Node (x, y) (x + w - 1, y + h - 1) a
       (place x y nw)
       (place (x + w - swidth ne) y ne)
       (place x (y + h - sheight sw) sw)
       (place (x + w - swidth se) (y + h - sheight se) se)"

definition arrange :: "int \<Rightarrow> int \<Rightarrow> shape \<Rightarrow> shape \<Rightarrow> shape \<Rightarrow> shape \<Rightarrow> bool" where
  "arrange w h nw ne sw se =
    ((nw = SNull \<and> ne = SNull \<and> sw = SNull \<and> se = SNull)
   \<or> (nw \<noteq> SNull \<and> ne \<noteq> SNull \<and> sw \<noteq> SNull \<and> se \<noteq> SNull
        \<and> swidth nw + swidth ne = w \<and> swidth sw = swidth nw \<and> swidth se = swidth ne
        \<and> sheight nw + sheight sw = h \<and> sheight ne = sheight nw \<and> sheight se = sheight sw)
   \<or> (nw \<noteq> SNull \<and> ne = SNull \<and> sw \<noteq> SNull \<and> se = SNull
        \<and> swidth nw = w \<and> swidth sw = w \<and> sheight nw + sheight sw = h)
   \<or> (nw = SNull \<and> ne \<noteq> SNull \<and> sw = SNull \<and> se \<noteq> SNull
        \<and> swidth ne = w \<and> swidth se = w \<and> sheight ne + sheight se = h)
   \<or> (nw \<noteq> SNull \<and> ne \<noteq> SNull \<and> sw = SNull \<and> se = SNull
        \<and> sheight nw = h \<and> sheight ne = h \<and> swidth nw + swidth ne = w)
   \<or> (nw = SNull \<and> ne = SNull \<and> sw \<noteq> SNull \<and> se \<noteq> SNull
        \<and> sheight sw = h \<and> sheight se = h \<and> swidth sw + swidth se = w))"

fun shp :: "shape \<Rightarrow> bool" where
  "shp SNull = True"
| "shp (SNode w h a nw ne sw se) =
     (1 \<le> w \<and> 1 \<le> h \<and> shp nw \<and> shp ne \<and> shp sw \<and> shp se \<and> arrange w h nw ne sw se)"

fun sflip :: "shape \<Rightarrow> shape" where
  "sflip SNull = SNull"
| "sflip (SNode w h a nw ne sw se) = SNode w h a (sflip ne) (sflip nw) (sflip se) (sflip sw)"

fun srot :: "shape \<Rightarrow> shape" where
  "srot SNull = SNull"
| "srot (SNode w h a nw ne sw se) = SNode h w a (srot ne) (srot se) (srot nw) (srot sw)"

text \<open>The tree of \<open>q\<close> is the shape \<open>s\<close>, laid out at the origin, of the stored size.\<close>

definition qinv :: "QTree \<Rightarrow> shape \<Rightarrow> bool" where
  "qinv q s \<longleftrightarrow> shp s \<and> s \<noteq> SNull \<and> swidth s = width q \<and> sheight s = height q
     \<and> root q = place 0 0 s"

section \<open>Shapes under flip and rotation\<close>

lemma place_Null [simp]: "place x y s = Null \<longleftrightarrow> s = SNull"
  by (cases s) simp_all

lemma sflip_SNull [simp]: "sflip s = SNull \<longleftrightarrow> s = SNull"
  by (cases s) simp_all

lemma srot_SNull [simp]: "srot s = SNull \<longleftrightarrow> s = SNull"
  by (cases s) simp_all

lemma swidth_sflip [simp]: "swidth (sflip s) = swidth s"
  by (cases s) simp_all

lemma sheight_sflip [simp]: "sheight (sflip s) = sheight s"
  by (cases s) simp_all

lemma swidth_srot [simp]: "swidth (srot s) = sheight s"
  by (cases s) simp_all

lemma sheight_srot [simp]: "sheight (srot s) = swidth s"
  by (cases s) simp_all

lemma nodeWidth_place [simp]:
  "s \<noteq> SNull \<Longrightarrow> nodeWidth (setCorners (place x y s) ul lr) = Some (fst lr - fst ul + 1)"
  by (cases s) simp_all

lemma nodeWidth_place0 [simp]: "s \<noteq> SNull \<Longrightarrow> nodeWidth (place x y s) = Some (swidth s)"
  by (cases s) simp_all

lemma nodeHeight_place0 [simp]: "s \<noteq> SNull \<Longrightarrow> nodeHeight (place x y s) = Some (sheight s)"
  by (cases s) simp_all

lemma setCorners_Null [simp]: "setCorners t ul lr = Null \<longleftrightarrow> t = Null"
  by (cases t) simp_all

lemma upLeft_place [simp]: "s \<noteq> SNull \<Longrightarrow> upLeft (place x y s) = (x, y)"
  by (cases s) simp_all

lemma lowRight_place [simp]:
  "s \<noteq> SNull \<Longrightarrow> lowRight (place x y s) = (x + swidth s - 1, y + sheight s - 1)"
  by (cases s) simp_all

lemma setCorners_place_id:
  "setCorners (place x y s) (x, y) (x + swidth s - 1, y + sheight s - 1) = place x y s"
  by (cases s) simp_all

lemma sflip_sflip [simp]: "sflip (sflip s) = s"
  by (induction s) simp_all

lemma srot4 [simp]: "srot (srot (srot (srot s))) = s"
  by (induction s) simp_all

lemma arrange_sflip:
  "arrange w h nw ne sw se \<Longrightarrow> arrange w h (sflip ne) (sflip nw) (sflip se) (sflip sw)"
  unfolding arrange_def by (elim disjE conjE) simp_all

lemma arrange_srot:
  "arrange w h nw ne sw se \<Longrightarrow> arrange h w (srot ne) (srot se) (srot nw) (srot sw)"
  unfolding arrange_def by (elim disjE conjE) simp_all

lemma shp_sflip: "shp s \<Longrightarrow> shp (sflip s)"
  by (induction s) (simp_all add: arrange_sflip)

lemma shp_srot: "shp s \<Longrightarrow> shp (srot s)"
  by (induction s) (simp_all add: arrange_srot)

lemma shp_pos: "shp s \<Longrightarrow> s \<noteq> SNull \<Longrightarrow> 1 \<le> swidth s \<and> 1 \<le> sheight s"
  by (cases s) simp_all

lemma place_cong: "x = x' \<Longrightarrow> y = y' \<Longrightarrow> place x y s = place x' y' s"
  by simp

text \<open>
  Flipping a laid-out shape whose root has been moved to new corners of the same size
  lays out the mirrored shape at the new corner; the positions of the children before
  the flip play no role.
\<close>

lemma FlipNode_place:
  "shp s \<Longrightarrow> lr = (fst ul + swidth s - 1, snd ul + sheight s - 1) \<Longrightarrow>
     FlipNode (setCorners (place x y s) ul lr) = Some (place (fst ul) (snd ul) (sflip s))"
proof (induction s arbitrary: x y ul lr)
  case SNull
  show ?case by simp
next
  case (SNode w h a nw ne sw se)
  from SNode.prems(1) have kids: "shp nw" "shp ne" "shp sw" "shp se"
    and arr: "arrange w h nw ne sw se" by simp_all
  note IH = SNode.IH(1) [OF kids(1)] SNode.IH(2) [OF kids(2)]
    SNode.IH(3) [OF kids(3)] SNode.IH(4) [OF kids(4)]
  obtain x' y' where ul: "ul = (x', y')" by (cases ul)
  from arr SNode.prems(2) ul show ?case
    unfolding arrange_def
    apply (elim disjE conjE)
         apply (simp_all add: IH Let_def)
        apply (intro conjI place_cong; linarith)+
    done
qed

text \<open>
  The same for the rotation, where the new corners of the root have the transposed size.
\<close>

lemma RotateSubtree_place:
  "shp s \<Longrightarrow> lr = (fst ul + sheight s - 1, snd ul + swidth s - 1) \<Longrightarrow>
     RotateSubtree (setCorners (place x y s) ul lr) = Some (place (fst ul) (snd ul) (srot s))"
proof (induction s arbitrary: x y ul lr)
  case SNull
  show ?case by simp
next
  case (SNode w h a nw ne sw se)
  from SNode.prems(1) have kids: "shp nw" "shp ne" "shp sw" "shp se"
    and arr: "arrange w h nw ne sw se" by simp_all
  note IH = SNode.IH(1) [OF kids(1)] SNode.IH(2) [OF kids(2)]
    SNode.IH(3) [OF kids(3)] SNode.IH(4) [OF kids(4)]
  obtain x' y' where ul: "ul = (x', y')" by (cases ul)
  from arr SNode.prems(2) ul show ?case
    unfolding arrange_def
    apply (elim disjE conjE)
         apply (simp_all add: IH Let_def)
        apply (intro conjI place_cong; linarith)+
    done
qed

section \<open>The constructor returns a built tree\<close>

lemma assignColor_Some:
  "assignColor (Node ul lr a nw ne sw se) m = Some t \<Longrightarrow>
     \<exists>a'. t = Node ul lr a' nw ne sw se"
  by (auto split: if_splits option.splits prod.splits simp: Let_def)

lemma built_not_Null: "built img t \<Longrightarrow> t \<noteq> Null"
  by (induction rule: built.induct) (auto dest!: assignColor_Some simp del: assignColor.simps)

lemma i32_id: "- 2147483648 \<le> x \<Longrightarrow> x < 2147483648 \<Longrightarrow> i32 x = x"
  by (simp add: i32_def)

lemma nodeArea_eq: "t \<noteq> Null \<Longrightarrow> nodeArea t = Some (i32 (rectArea t))"
  by (cases t) (simp_all add: mult.commute)

lemma nodeAvg_eq: "t \<noteq> Null \<Longrightarrow> nodeAvg t = Some (avg t)"
  by (cases t) simp_all

lemma rectArea_corners:
  "t \<noteq> Null \<Longrightarrow> upLeft t = (x0, y0) \<Longrightarrow> lowRight t = (x1, y1) \<Longrightarrow>
     rectArea t = (x1 - x0 + 1) * (y1 - y0 + 1)"
  by (cases t) simp_all

text \<open>
  When the areas of the children are positive and add up to less than \<open>2^31\<close>, no area
  wraps, the divisor is not zero, and \<^verbatim>\<open>assignColor\<close> returns.
\<close>

lemma assignColor_v_eq:
  assumes "nw \<noteq> Null" "sw \<noteq> Null" "0 < rectArea nw" "0 < rectArea sw"
    and "rectArea nw + rectArea sw < 2147483648"
  shows "assignColor (Node ul lr a nw ne sw se) ''v'' =
     Some (Node ul lr
       (RGBAPixel
         (mix2 (rectArea nw) (r (avg nw)) (rectArea sw) (r (avg sw)) (rectArea nw + rectArea sw))
         (mix2 (rectArea nw) (g (avg nw)) (rectArea sw) (g (avg sw)) (rectArea nw + rectArea sw))
         (mix2 (rectArea nw) (b (avg nw)) (rectArea sw) (b (avg sw)) (rectArea nw + rectArea sw)))
       nw ne sw se)"
proof -
  have "i32 (rectArea nw) = rectArea nw" "i32 (rectArea sw) = rectArea sw"
      "i32 (rectArea nw + rectArea sw) = rectArea nw + rectArea sw"
    using assms(3-5) by (intro i32_id; linarith)+
  then show ?thesis
    using assms(1-4) by (simp add: nodeArea_eq nodeAvg_eq Let_def)
qed

lemma assignColor_h_eq:
  assumes "nw \<noteq> Null" "ne \<noteq> Null" "0 < rectArea nw" "0 < rectArea ne"
    and "rectArea nw + rectArea ne < 2147483648"
  shows "assignColor (Node ul lr a nw ne sw se) ''h'' =
     Some (Node ul lr
       (RGBAPixel
         (mix2 (rectArea nw) (r (avg nw)) (rectArea ne) (r (avg ne)) (rectArea nw + rectArea ne))
         (mix2 (rectArea nw) (g (avg nw)) (rectArea ne) (g (avg ne)) (rectArea nw + rectArea ne))
         (mix2 (rectArea nw) (b (avg nw)) (rectArea ne) (b (avg ne)) (rectArea nw + rectArea ne)))
       nw ne sw se)"
proof -
  have "i32 (rectArea nw) = rectArea nw" "i32 (rectArea ne) = rectArea ne"
      "i32 (rectArea nw + rectArea ne) = rectArea nw + rectArea ne"
    using assms(3-5) by (intro i32_id; linarith)+
  then show ?thesis
    using assms(1-4) by (simp add: nodeArea_eq nodeAvg_eq Let_def)
qed

lemma assignColor_else_eq:
  assumes "nw \<noteq> Null" "ne \<noteq> Null" "sw \<noteq> Null" "se \<noteq> Null"
    and "0 < rectArea nw" "0 < rectArea ne" "0 < rectArea sw" "0 < rectArea se"
    and "rectArea nw + rectArea ne + rectArea sw + rectArea se < 2147483648"
  shows "assignColor (Node ul lr a nw ne sw se) ''else'' =
     Some (Node ul lr
       (RGBAPixel
         (mix4 (rectArea nw) (r (avg nw)) (rectArea ne) (r (avg ne))
            (rectArea sw) (r (avg sw)) (rectArea se) (r (avg se))
            (rectArea nw + rectArea ne + rectArea sw + rectArea se))
         (mix4 (rectArea nw) (g (avg nw)) (rectArea ne) (g (avg ne))
            (rectArea sw) (g (avg sw)) (rectArea se) (g (avg se))
            (rectArea nw + rectArea ne + rectArea sw + rectArea se))
         (mix4 (rectArea nw) (b (avg nw)) (rectArea ne) (b (avg ne))
            (rectArea sw) (b (avg sw)) (rectArea se) (b (avg se))
            (rectArea nw + rectArea ne + rectArea sw + rectArea se)))
       nw ne sw se)"
proof -
  have "i32 (rectArea nw) = rectArea nw" "i32 (rectArea ne) = rectArea ne"
      "i32 (rectArea sw) = rectArea sw" "i32 (rectArea se) = rectArea se"
      "i32 (rectArea nw + rectArea ne) = rectArea nw + rectArea ne"
      "i32 (rectArea nw + rectArea ne + rectArea sw) = rectArea nw + rectArea ne + rectArea sw"
      "i32 (rectArea nw + rectArea ne + rectArea sw + rectArea se)
         = rectArea nw + rectArea ne + rectArea sw + rectArea se"
    using assms(5-9) by (intro i32_id; linarith)+
  then show ?thesis
    using assms(1-8) by (simp add: nodeArea_eq nodeAvg_eq Let_def)
qed

lemma area_sub:
  assumes "0 < (w'::int)" "w' \<le> w" "0 < h'" "h' \<le> h" "w * h < n"
  shows "0 < w' * h'" "w' * h' < n"
proof -
  show "0 < w' * h'" using assms(1,3) by simp
  have "w' * h' \<le> w * h" using assms(1-4) by (intro mult_mono) simp_all
  then show "w' * h' < n" using assms(5) by simp
qed

lemma ceil_half_1 [simp]: "ceil_half 1 = 1"
  by (simp add: ceil_half_div)

lemma BuildNode_leaf:
  "BuildNode img (x, y) (x, y) = Some (Node (x, y) (x, y) (getPixel img x y) Null Null Null Null)"
  by (subst BuildNode.simps) simp

lemma BuildNode_v:
  "y0 < y1 \<Longrightarrow> BuildNode img (x, y0) (x, y1) =
     (case BuildNode img (x, y0) (x, y0 + ceil_half (y1 - y0 + 1) - 1) of None \<Rightarrow> None
      | Some nw \<Rightarrow>
     (case BuildNode img (x, y0 + ceil_half (y1 - y0 + 1)) (x, y1) of None \<Rightarrow> None
      | Some sw \<Rightarrow> assignColor (Node (x, y0) (x, y1) RGBAPixel_default nw Null sw Null) ''v''))"
  by (subst BuildNode.simps) (simp add: Let_def cong: option.case_cong)

lemma BuildNode_h:
  "x0 < x1 \<Longrightarrow> BuildNode img (x0, y) (x1, y) =
     (case BuildNode img (x0, y) (x0 + ceil_half (x1 - x0 + 1) - 1, y) of None \<Rightarrow> None
      | Some nw \<Rightarrow>
     (case BuildNode img (x0 + ceil_half (x1 - x0 + 1), y) (x1, y) of None \<Rightarrow> None
      | Some ne \<Rightarrow> assignColor (Node (x0, y) (x1, y) RGBAPixel_default nw ne Null Null) ''h''))"
  by (subst BuildNode.simps) (simp add: Let_def cong: option.case_cong)

lemma BuildNode_q:
  "x0 < x1 \<Longrightarrow> y0 < y1 \<Longrightarrow> BuildNode img (x0, y0) (x1, y1) =
     (case BuildNode img (x0, y0) (x0 + ceil_half (x1 - x0 + 1) - 1, y0 + ceil_half (y1 - y0 + 1) - 1)
        of None \<Rightarrow> None | Some nw \<Rightarrow>
     (case BuildNode img (x0 + ceil_half (x1 - x0 + 1), y0) (x1, y0 + ceil_half (y1 - y0 + 1) - 1)
        of None \<Rightarrow> None | Some ne \<Rightarrow>
     (case BuildNode img (x0, y0 + ceil_half (y1 - y0 + 1)) (x0 + ceil_half (x1 - x0 + 1) - 1, y1)
        of None \<Rightarrow> None | Some sw \<Rightarrow>
     (case BuildNode img (x0 + ceil_half (x1 - x0 + 1), y0 + ceil_half (y1 - y0 + 1)) (x1, y1)
        of None \<Rightarrow> None | Some se \<Rightarrow>
          assignColor (Node (x0, y0) (x1, y1) RGBAPixel_default nw ne sw se) ''else''))))"
  by (subst BuildNode.simps) (simp add: Let_def cong: option.case_cong)


lemma BuildNode_built:
  "x0 \<le> x1 \<Longrightarrow> y0 \<le> y1 \<Longrightarrow> (x1 - x0 + 1) * (y1 - y0 + 1) < 2147483648 \<Longrightarrow>
     \<exists>t. BuildNode img (x0, y0) (x1, y1) = Some t \<and> built img t
        \<and> upLeft t = (x0, y0) \<and> lowRight t = (x1, y1)"
proof (induction "nat (x1 - x0 + (y1 - y0))" arbitrary: x0 y0 x1 y1 rule: less_induct)
  case less
  consider (leaf) "x1 = x0" "y1 = y0" | (v) "x1 = x0" "y0 < y1"
    | (h) "y1 = y0" "x0 < x1" | (q) "x0 < x1" "y0 < y1"
    using less.prems by linarith
  then show ?case
  proof cases
    case leaf
    then show ?thesis by (auto simp: BuildNode_leaf intro: built_leaf)
  next
    case v
    define hh where "hh = ceil_half (y1 - y0 + 1)"
    have hh: "1 \<le> hh" "hh \<le> y1 - y0" using v by (simp_all add: hh_def ceil_half_div)
    have bound: "y1 - y0 + 1 < 2147483648" using less.prems(3) v by simp
    obtain nw where nw: "BuildNode img (x0, y0) (x0, y0 + hh - 1) = Some nw" "built img nw"
        "upLeft nw = (x0, y0)" "lowRight nw = (x0, y0 + hh - 1)"
      using less.hyps [of x0 x0 "y0 + hh - 1" y0] hh v bound by auto
    obtain sw where sw: "BuildNode img (x0, y0 + hh) (x0, y1) = Some sw" "built img sw"
        "upLeft sw = (x0, y0 + hh)" "lowRight sw = (x0, y1)"
      using less.hyps [of x0 x0 y1 "y0 + hh"] hh v bound by auto
    have nn: "nw \<noteq> Null" "sw \<noteq> Null" using built_not_Null nw(2) sw(2) by blast+
    have a1: "rectArea nw = hh" using rectArea_corners [OF nn(1) nw(3,4)] by simp
    have a3: "rectArea sw = y1 - y0 - hh + 1" using rectArea_corners [OF nn(2) sw(3,4)] by simp
    obtain t where t: "assignColor (Node (x0, y0) (x0, y1) RGBAPixel_default nw Null sw Null) ''v''
        = Some t"
      using assignColor_v_eq [OF nn, of "(x0, y0)" "(x0, y1)" RGBAPixel_default Null Null]
        a1 a3 hh bound by simp
    have "built img t"
      using built_v [OF v(2) hh_def nw(2) sw(2) nw(3,4) sw(3,4) t] .
    moreover have "BuildNode img (x0, y0) (x1, y1) = Some t"
      using v nw(1) sw(1) t by (simp add: BuildNode_v hh_def [symmetric])
    moreover have "upLeft t = (x0, y0) \<and> lowRight t = (x1, y1)"
      using assignColor_Some [OF t] v by auto
    ultimately show ?thesis by simp
  next
    case h
    define hw where "hw = ceil_half (x1 - x0 + 1)"
    have hw: "1 \<le> hw" "hw \<le> x1 - x0" using h by (simp_all add: hw_def ceil_half_div)
    have bound: "x1 - x0 + 1 < 2147483648" using less.prems(3) h by simp
    obtain nw where nw: "BuildNode img (x0, y0) (x0 + hw - 1, y0) = Some nw" "built img nw"
        "upLeft nw = (x0, y0)" "lowRight nw = (x0 + hw - 1, y0)"
      using less.hyps [of "x0 + hw - 1" x0 y0 y0] hw h bound by auto
    obtain ne where ne: "BuildNode img (x0 + hw, y0) (x1, y0) = Some ne" "built img ne"
        "upLeft ne = (x0 + hw, y0)" "lowRight ne = (x1, y0)"
      using less.hyps [of x1 "x0 + hw" y0 y0] hw h bound by auto
    have nn: "nw \<noteq> Null" "ne \<noteq> Null" using built_not_Null nw(2) ne(2) by blast+
    have a1: "rectArea nw = hw" using rectArea_corners [OF nn(1) nw(3,4)] by simp
    have a2: "rectArea ne = x1 - x0 - hw + 1" using rectArea_corners [OF nn(2) ne(3,4)] by simp
    obtain t where t: "assignColor (Node (x0, y0) (x1, y0) RGBAPixel_default nw ne Null Null) ''h''
        = Some t"
      using assignColor_h_eq [OF nn, of "(x0, y0)" "(x1, y0)" RGBAPixel_default Null Null]
        a1 a2 hw bound by simp
    have "built img t"
      using built_h [OF h(2) hw_def nw(2) ne(2) nw(3,4) ne(3,4) t] .
    moreover have "BuildNode img (x0, y0) (x1, y1) = Some t"
      using h nw(1) ne(1) t by (simp add: BuildNode_h hw_def [symmetric])
    moreover have "upLeft t = (x0, y0) \<and> lowRight t = (x1, y1)"
      using assignColor_Some [OF t] h by auto
    ultimately show ?thesis by simp
  next
    case q
    define hw where "hw = ceil_half (x1 - x0 + 1)"
    define hh where "hh = ceil_half (y1 - y0 + 1)"
    define ew where "ew = x1 - x0 + 1 - hw"
    define eh where "eh = y1 - y0 + 1 - hh"
    have hw: "1 \<le> hw" "hw \<le> x1 - x0" using q by (simp_all add: hw_def ceil_half_div)
    have hh: "1 \<le> hh" "hh \<le> y1 - y0" using q by (simp_all add: hh_def ceil_half_div)
    have ew: "1 \<le> ew" "ew \<le> x1 - x0 + 1" using hw by (simp_all add: ew_def)
    have eh: "1 \<le> eh" "eh \<le> y1 - y0 + 1" using hh by (simp_all add: eh_def)
    note b = less.prems(3)
    have b1: "0 < hw * hh" "hw * hh < 2147483648"
      using area_sub [of hw "x1 - x0 + 1" hh "y1 - y0 + 1", OF _ _ _ _ b] hw hh by simp_all
    have b2: "0 < ew * hh" "ew * hh < 2147483648"
      using area_sub [of ew "x1 - x0 + 1" hh "y1 - y0 + 1", OF _ _ _ _ b] ew hh by simp_all
    have b3: "0 < hw * eh" "hw * eh < 2147483648"
      using area_sub [of hw "x1 - x0 + 1" eh "y1 - y0 + 1", OF _ _ _ _ b] hw eh by simp_all
    have b4: "0 < ew * eh" "ew * eh < 2147483648"
      using area_sub [of ew "x1 - x0 + 1" eh "y1 - y0 + 1", OF _ _ _ _ b] ew eh by simp_all
    have total: "hw * hh + ew * hh + hw * eh + ew * eh = (x1 - x0 + 1) * (y1 - y0 + 1)"
      by (simp add: ew_def eh_def algebra_simps)
    obtain nw where nw: "BuildNode img (x0, y0) (x0 + hw - 1, y0 + hh - 1) = Some nw" "built img nw"
        "upLeft nw = (x0, y0)" "lowRight nw = (x0 + hw - 1, y0 + hh - 1)"
      using less.hyps [of "x0 + hw - 1" x0 "y0 + hh - 1" y0] hw hh q b1 by auto
    obtain ne where ne: "BuildNode img (x0 + hw, y0) (x1, y0 + hh - 1) = Some ne" "built img ne"
        "upLeft ne = (x0 + hw, y0)" "lowRight ne = (x1, y0 + hh - 1)"
      using less.hyps [of x1 "x0 + hw" "y0 + hh - 1" y0] hw hh q b2
      by (auto simp: ew_def algebra_simps)
    obtain sw where sw: "BuildNode img (x0, y0 + hh) (x0 + hw - 1, y1) = Some sw" "built img sw"
        "upLeft sw = (x0, y0 + hh)" "lowRight sw = (x0 + hw - 1, y1)"
      using less.hyps [of "x0 + hw - 1" x0 y1 "y0 + hh"] hw hh q b3
      by (auto simp: eh_def algebra_simps)
    obtain se where se: "BuildNode img (x0 + hw, y0 + hh) (x1, y1) = Some se" "built img se"
        "upLeft se = (x0 + hw, y0 + hh)" "lowRight se = (x1, y1)"
      using less.hyps [of x1 "x0 + hw" y1 "y0 + hh"] hw hh q b4
      by (auto simp: ew_def eh_def algebra_simps)
    have nn: "nw \<noteq> Null" "ne \<noteq> Null" "sw \<noteq> Null" "se \<noteq> Null"
      using built_not_Null nw(2) ne(2) sw(2) se(2) by blast+
    have a1: "rectArea nw = hw * hh" using rectArea_corners [OF nn(1) nw(3,4)] by simp
    have a2: "rectArea ne = ew * hh"
      using rectArea_corners [OF nn(2) ne(3,4)] by (simp add: ew_def algebra_simps)
    have a3: "rectArea sw = hw * eh"
      using rectArea_corners [OF nn(3) sw(3,4)] by (simp add: eh_def algebra_simps)
    have a4: "rectArea se = ew * eh"
      using rectArea_corners [OF nn(4) se(3,4)] by (simp add: ew_def eh_def algebra_simps)
    obtain t where t: "assignColor (Node (x0, y0) (x1, y1) RGBAPixel_default nw ne sw se) ''else''
        = Some t"
      using assignColor_else_eq [OF nn, of "(x0, y0)" "(x1, y1)" RGBAPixel_default]
        b1(1) b2(1) b3(1) b4(1) total b by (simp add: a1 a2 a3 a4)
    have "built img t"
      using built_q [OF q hw_def hh_def nw(2) ne(2) sw(2) se(2) nw(3,4) ne(3,4) sw(3,4) se(3,4) t] .
    moreover have "BuildNode img (x0, y0) (x1, y1) = Some t"
      using q nw(1) ne(1) sw(1) se(1) t
      by (simp add: BuildNode_q hw_def [symmetric] hh_def [symmetric])
    moreover have "upLeft t = (x0, y0) \<and> lowRight t = (x1, y1)"
      using assignColor_Some [OF t] by auto
    ultimately show ?thesis by simp
  qed
qed

lemma built_shape:
  "built img t \<Longrightarrow>
     \<exists>s. shp s \<and> s \<noteq> SNull \<and> t = place (fst (upLeft t)) (snd (upLeft t)) s"
proof (induction rule: built.induct)
  case (built_leaf x y)
  have "shp (SNode 1 1 (getPixel img x y) SNull SNull SNull SNull)"
    by (simp add: arrange_def)
  then show ?case
    by (intro exI [of _ "SNode 1 1 (getPixel img x y) SNull SNull SNull SNull"]) simp
next
  case (built_v y0 y1 hh nw sw x t)
  from built_v.IH built_v.hyps obtain s1 s3 where
    s1: "shp s1" "s1 \<noteq> SNull" "nw = place x y0 s1" and
    s3: "shp s3" "s3 \<noteq> SNull" "sw = place x (y0 + hh) s3"
    by auto
  from s1 built_v.hyps have d1: "swidth s1 = 1" "sheight s1 = hh" by auto
  from s3 built_v.hyps have d3: "swidth s3 = 1" "sheight s3 = y1 - y0 - hh + 1" by auto
  from built_v.hyps have hh: "1 \<le> hh" "hh \<le> y1 - y0" by (simp_all add: ceil_half_div)
  from assignColor_Some [OF built_v.hyps(9)] obtain a where
    t: "t = Node (x, y0) (x, y1) a nw Null sw Null" by blast
  let ?s = "SNode 1 (y1 - y0 + 1) a s1 SNull s3 SNull"
  have "shp ?s" using s1 s3 d1 d3 hh built_v.hyps(1) by (simp add: arrange_def)
  moreover have "t = place (fst (upLeft t)) (snd (upLeft t)) ?s"
    using t s1 s3 d1 d3 by simp
  ultimately show ?case by (intro exI [of _ ?s]) simp
next
  case (built_h x0 x1 hw nw ne y t)
  from built_h.IH built_h.hyps obtain s1 s2 where
    s1: "shp s1" "s1 \<noteq> SNull" "nw = place x0 y s1" and
    s2: "shp s2" "s2 \<noteq> SNull" "ne = place (x0 + hw) y s2"
    by auto
  from s1 built_h.hyps have d1: "swidth s1 = hw" "sheight s1 = 1" by auto
  from s2 built_h.hyps have d2: "swidth s2 = x1 - x0 - hw + 1" "sheight s2 = 1" by auto
  from built_h.hyps have hw: "1 \<le> hw" "hw \<le> x1 - x0" by (simp_all add: ceil_half_div)
  from assignColor_Some [OF built_h.hyps(9)] obtain a where
    t: "t = Node (x0, y) (x1, y) a nw ne Null Null" by blast
  let ?s = "SNode (x1 - x0 + 1) 1 a s1 s2 SNull SNull"
  have "shp ?s" using s1 s2 d1 d2 hw built_h.hyps(1) by (simp add: arrange_def)
  moreover have "t = place (fst (upLeft t)) (snd (upLeft t)) ?s"
    using t s1 s2 d1 d2 by simp
  ultimately show ?case by (intro exI [of _ ?s]) simp
next
  case (built_q x0 x1 y0 y1 hw hh nw ne sw se t)
  from built_q.IH built_q.hyps obtain s1 s2 s3 s4 where
    s1: "shp s1" "s1 \<noteq> SNull" "nw = place x0 y0 s1" and
    s2: "shp s2" "s2 \<noteq> SNull" "ne = place (x0 + hw) y0 s2" and
    s3: "shp s3" "s3 \<noteq> SNull" "sw = place x0 (y0 + hh) s3" and
    s4: "shp s4" "s4 \<noteq> SNull" "se = place (x0 + hw) (y0 + hh) s4"
    by auto
  from s1 built_q.hyps have d1: "swidth s1 = hw" "sheight s1 = hh" by auto
  from s2 built_q.hyps have d2: "swidth s2 = x1 - x0 - hw + 1" "sheight s2 = hh" by auto
  from s3 built_q.hyps have d3: "swidth s3 = hw" "sheight s3 = y1 - y0 - hh + 1" by auto
  from s4 built_q.hyps have d4: "swidth s4 = x1 - x0 - hw + 1" "sheight s4 = y1 - y0 - hh + 1"
    by auto
  from built_q.hyps have hw: "1 \<le> hw" "hw \<le> x1 - x0" by (simp_all add: ceil_half_div)
  from built_q.hyps have hh: "1 \<le> hh" "hh \<le> y1 - y0" by (simp_all add: ceil_half_div)
  from assignColor_Some [OF built_q.hyps(17)] obtain a where
    t: "t = Node (x0, y0) (x1, y1) a nw ne sw se" by blast
  let ?s = "SNode (x1 - x0 + 1) (y1 - y0 + 1) a s1 s2 s3 s4"
  have "shp ?s" using s1 s2 s3 s4 d1 d2 d3 d4 hw hh built_q.hyps(1,2) by (simp add: arrange_def)
  moreover have "t = place (fst (upLeft t)) (snd (upLeft t)) ?s"
    using t s1 s2 s3 s4 d1 d2 d3 d4 by simp
  ultimately show ?case by (intro exI [of _ ?s]) simp
qed

section \<open>Pruning\<close>


lemma shouldPrune_mono:
  "tol1 \<le> tol2 \<Longrightarrow> shouldPrune d t a tol1 \<Longrightarrow> shouldPrune d t a tol2"
  by (induction t) (auto split: if_splits)

lemma countNodes_PruneNode_pos: "t \<noteq> Null \<Longrightarrow> 0 < countNodes (PruneNode d t tol)"
  by (cases t) (auto)

lemma PruneNode_count_mono:
  "tol1 \<le> tol2 \<Longrightarrow> countNodes (PruneNode d t tol2) \<le> countNodes (PruneNode d t tol1)"
proof (induction t)
  case Null
  show ?case by simp
next
  case (Node ul lr a nw ne sw se)
  show ?case
  proof (cases "nw = Null \<and> ne = Null \<and> sw = Null \<and> se = Null")
    case True
    then show ?thesis by simp
  next
    case False
    note internal = this
    show ?thesis
    proof (cases "shouldPrune d (Node ul lr a nw ne sw se) a tol2")
      case True
      with internal have "countNodes (PruneNode d (Node ul lr a nw ne sw se) tol2) = 1" by simp
      moreover have "0 < countNodes (PruneNode d (Node ul lr a nw ne sw se) tol1)"
        by (rule countNodes_PruneNode_pos) simp
      ultimately show ?thesis by linarith
    next
      case False
      with shouldPrune_mono [OF Node.prems] have "\<not> shouldPrune d (Node ul lr a nw ne sw se) a tol1"
        by blast
      with False internal Node.IH [OF Node.prems] show ?thesis by simp
    qed
  qed
qed

lemma PruneNode_place:
  "shp s \<Longrightarrow> \<exists>s'. shp s' \<and> swidth s' = swidth s \<and> sheight s' = sheight s
       \<and> (s' = SNull \<longleftrightarrow> s = SNull) \<and> PruneNode d (place x y s) tol = place x y s'"
proof (induction s arbitrary: x y)
  case SNull
  show ?case by (intro exI [of _ SNull]) simp
next
  case (SNode w h a nw ne sw se)
  from SNode.prems have kids: "shp nw" "shp ne" "shp sw" "shp se"
    and arr: "arrange w h nw ne sw se" and pos: "1 \<le> w" "1 \<le> h" by simp_all
  let ?t = "place x y (SNode w h a nw ne sw se)"
  show ?case
  proof (cases "nw = SNull \<and> ne = SNull \<and> sw = SNull \<and> se = SNull")
    case True
    with SNode.prems show ?thesis
      by (intro exI [of _ "SNode w h a nw ne sw se"]) simp
  next
    case False
    note internal = this
    show ?thesis
    proof (cases "shouldPrune d ?t a tol")
      case True
      have "shp (SNode w h a SNull SNull SNull SNull)" using pos by (simp add: arrange_def)
      moreover have "PruneNode d ?t tol = place x y (SNode w h a SNull SNull SNull SNull)"
        using True internal by (simp del: shouldPrune.simps)
      ultimately show ?thesis
        by (intro exI [of _ "SNode w h a SNull SNull SNull SNull"]) simp
    next
      case False
      obtain s1 where s1: "shp s1" "swidth s1 = swidth nw" "sheight s1 = sheight nw"
          "s1 = SNull \<longleftrightarrow> nw = SNull" "PruneNode d (place x y nw) tol = place x y s1"
        using SNode.IH(1) [OF kids(1), of x y] by blast
      obtain s2 where s2: "shp s2" "swidth s2 = swidth ne" "sheight s2 = sheight ne"
          "s2 = SNull \<longleftrightarrow> ne = SNull"
          "PruneNode d (place (x + w - swidth ne) y ne) tol = place (x + w - swidth ne) y s2"
        using SNode.IH(2) [OF kids(2), of "x + w - swidth ne" y] by blast
      obtain s3 where s3: "shp s3" "swidth s3 = swidth sw" "sheight s3 = sheight sw"
          "s3 = SNull \<longleftrightarrow> sw = SNull"
          "PruneNode d (place x (y + h - sheight sw) sw) tol = place x (y + h - sheight sw) s3"
        using SNode.IH(3) [OF kids(3), of x "y + h - sheight sw"] by blast
      obtain s4 where s4: "shp s4" "swidth s4 = swidth se" "sheight s4 = sheight se"
          "s4 = SNull \<longleftrightarrow> se = SNull"
          "PruneNode d (place (x + w - swidth se) (y + h - sheight se) se) tol
             = place (x + w - swidth se) (y + h - sheight se) s4"
        using SNode.IH(4) [OF kids(4), of "x + w - swidth se" "y + h - sheight se"] by blast
      have "arrange w h s1 s2 s3 s4"
        using arr s1(2-4) s2(2-4) s3(2-4) s4(2-4) unfolding arrange_def by simp
      then have "shp (SNode w h a s1 s2 s3 s4)"
        using pos s1(1) s2(1) s3(1) s4(1) by simp
      moreover have "PruneNode d ?t tol = place x y (SNode w h a s1 s2 s3 s4)"
        using False internal s1 s2 s3 s4 by (auto simp del: shouldPrune.simps)
      ultimately show ?thesis
        by (intro exI [of _ "SNode w h a s1 s2 s3 s4"]) simp
    qed
  qed
qed

section \<open>Leaves of a laid-out shape\<close>

lemma inRect_pairs [simp]:
  "inRect (px, py) ((x0, y0), (x1, y1)) \<longleftrightarrow> x0 \<le> px \<and> px \<le> x1 \<and> y0 \<le> py \<and> py \<le> y1"
  by (simp add: inRect_def)

lemma leafRects_place_count:
  "shp s \<Longrightarrow> length (filter (inRect (px, py)) (leafRects (place x y s)))
     = (if x \<le> px \<and> px < x + swidth s \<and> y \<le> py \<and> py < y + sheight s then 1 else 0)"
proof (induction s arbitrary: x y)
  case SNull
  show ?case by simp
next
  case (SNode w h a nw ne sw se)
  from SNode.prems have kids: "shp nw" "shp ne" "shp sw" "shp se"
    and arr: "arrange w h nw ne sw se" and pos: "1 \<le> w" "1 \<le> h" by simp_all
  note IH = SNode.IH(1) [OF kids(1)] SNode.IH(2) [OF kids(2)]
    SNode.IH(3) [OF kids(3)] SNode.IH(4) [OF kids(4)]
  note dims = shp_pos [OF kids(1)] shp_pos [OF kids(2)] shp_pos [OF kids(3)] shp_pos [OF kids(4)]
  from arr dims show ?case
    unfolding arrange_def
    apply (elim disjE conjE)
         apply (simp_all add: IH)
        apply (auto)
    done
qed

lemma leafRects_place_nonempty:
  "shp s \<Longrightarrow> rc \<in> set (leafRects (place x y s)) \<Longrightarrow>
     fst (fst rc) \<le> fst (snd rc) \<and> snd (fst rc) \<le> snd (snd rc)"
proof (induction s arbitrary: x y)
  case SNull
  then show ?case by simp
next
  case (SNode w h a nw ne sw se)
  then show ?case by (auto split: if_splits)
qed

lemma filter_two:
  assumes "i < j" "j < length xs" "P (xs ! i)" "P (xs ! j)"
  shows "2 \<le> length (filter P xs)"
proof -
  have xs: "xs = take j xs @ xs ! j # drop (Suc j) xs"
    using assms(2) by (rule id_take_nth_drop)
  have "xs ! i \<in> set (take j xs)"
    using assms(1,2) by (auto simp: in_set_conv_nth intro!: exI [of _ i])
  with assms(3) have "filter P (take j xs) \<noteq> []" by (auto simp: filter_empty_conv)
  then have "1 \<le> length (filter P (take j xs))" by (cases "filter P (take j xs)") simp_all
  moreover have "length (filter P xs)
      = length (filter P (take j xs)) + length (filter P (xs ! j # drop (Suc j) xs))"
    by (subst xs) simp
  ultimately show ?thesis using assms(4) by simp
qed

lemma count_partitions:
  assumes cnt: "\<And>px py. length (filter (inRect (px, py)) rs)
      = (if inRect (px, py) full then 1 else 0)"
    and ne: "\<And>rc. rc \<in> set rs \<Longrightarrow> fst (fst rc) \<le> fst (snd rc) \<and> snd (fst rc) \<le> snd (snd rc)"
  shows "partitions rs full"
proof -
  have disj: "\<not> (inRect p (rs ! i) \<and> inRect p (rs ! j))"
    if "i < j" "j < length rs" for i j p
  proof
    assume "inRect p (rs ! i) \<and> inRect p (rs ! j)"
    with that have "2 \<le> length (filter (inRect p) rs)" by (intro filter_two) auto
    moreover have "length (filter (inRect p) rs) \<le> 1" using cnt [of "fst p" "snd p"] by simp
    ultimately show False by simp
  qed
  have "\<not> (\<exists>p. inRect p (rs ! i) \<and> inRect p (rs ! j))"
    if "i < length rs" "j < length rs" "i \<noteq> j" for i j
  proof (cases "i < j")
    case True
    with disj that show ?thesis by blast
  next
    case False
    with that have "j < i" by simp
    with disj that show ?thesis by blast
  qed
  moreover have "inRect p full \<longleftrightarrow> (\<exists>rc \<in> set rs. inRect p rc)" for p
  proof -
    have "(\<exists>rc \<in> set rs. inRect p rc) \<longleftrightarrow> filter (inRect p) rs \<noteq> []"
      by (auto simp: filter_empty_conv)
    also have "\<dots> \<longleftrightarrow> length (filter (inRect p) rs) \<noteq> 0" by simp
    also have "\<dots> \<longleftrightarrow> inRect p full" using cnt [of "fst p" "snd p"] by simp
    finally show ?thesis by simp
  qed
  ultimately show ?thesis using ne unfolding partitions_def by blast
qed

section \<open>The invariant of reachable trees\<close>

lemma FlipHorizontal_qinv:
  assumes "qinv q s"
  shows "FlipHorizontal q = Some (q\<lparr>root := place 0 0 (sflip s)\<rparr>)"
proof -
  from assms have s: "shp s" "root q = place 0 0 s" by (simp_all add: qinv_def)
  have "FlipNode (setCorners (place 0 0 s) (0, 0) (0 + swidth s - 1, 0 + sheight s - 1))
      = Some (place 0 0 (sflip s))"
    using FlipNode_place [OF s(1), of "(0 + swidth s - 1, 0 + sheight s - 1)" "(0, 0)" 0 0]
    by simp
  then have "FlipNode (root q) = Some (place 0 0 (sflip s))"
    by (simp only: setCorners_place_id s(2))
  then show ?thesis by (simp add: FlipHorizontal_def)
qed

lemma RotateCCW_qinv:
  assumes "qinv q s"
  shows "RotateCCW q = Some \<lparr>height = width q, width = height q, root = place 0 0 (srot s)\<rparr>"
proof -
  from assms have s: "shp s" "s \<noteq> SNull" "root q = place 0 0 s" by (simp_all add: qinv_def)
  from s(2) obtain w h a nw ne sw se where sn: "s = SNode w h a nw ne sw se" by (cases s) auto
  have "RotateSubtree (setCorners (place 0 0 s) (0, 0) (sheight s - 1, swidth s - 1))
      = Some (place 0 0 (srot s))"
    using RotateSubtree_place [OF s(1), of "(sheight s - 1, swidth s - 1)" "(0, 0)" 0 0]
    by simp
  then show ?thesis
    using s(3) by (simp add: RotateCCW_def sn del: RotateSubtree.simps)
qed

lemma qinv_sflip: "qinv q s \<Longrightarrow> qinv (q\<lparr>root := place 0 0 (sflip s)\<rparr>) (sflip s)"
  by (simp add: qinv_def shp_sflip)

lemma qinv_srot:
  "qinv q s \<Longrightarrow> qinv \<lparr>height = width q, width = height q, root = place 0 0 (srot s)\<rparr> (srot s)"
  by (simp add: qinv_def shp_srot)

lemma qinv_build:
  assumes "0 < pngWidth img" "0 < pngHeight img" "pngWidth img * pngHeight img < 2147483648"
    and "QTree_of_PNG img = Some q"
  shows "\<exists>s. qinv q s"
proof -
  obtain t where t: "BuildNode img (0, 0) (pngWidth img - 1, pngHeight img - 1) = Some t"
      "built img t" "upLeft t = (0, 0)" "lowRight t = (pngWidth img - 1, pngHeight img - 1)"
    using BuildNode_built [of 0 "pngWidth img - 1" 0 "pngHeight img - 1" img] assms(1-3) by auto
  from built_shape [OF t(2)] t(3) obtain s where
    s: "shp s" "s \<noteq> SNull" "t = place 0 0 s" by auto
  from t(4) s have "swidth s = pngWidth img" "sheight s = pngHeight img" by auto
  moreover from assms(4) t(1) have "q = \<lparr>height = pngHeight img, width = pngWidth img, root = t\<rparr>"
    by (simp add: QTree_of_PNG_def Let_def)
  ultimately have "qinv q s" using s by (simp add: qinv_def)
  then show ?thesis ..
qed

lemma qinv_prune:
  assumes "qinv q s"
  shows "\<exists>s'. qinv (Prune d q tol) s'"
proof -
  from assms have s: "shp s" "s \<noteq> SNull" "swidth s = width q" "sheight s = height q"
      "root q = place 0 0 s" by (simp_all add: qinv_def)
  from PruneNode_place [OF s(1), of d 0 0 tol] obtain s' where
    "shp s'" "swidth s' = swidth s" "sheight s' = sheight s" "s' = SNull \<longleftrightarrow> s = SNull"
    "PruneNode d (place 0 0 s) tol = place 0 0 s'" by blast
  with s have "qinv (Prune d q tol) s'" by (simp add: qinv_def Prune_def)
  then show ?thesis ..
qed

lemma reachable_qinv: "reachable d q \<Longrightarrow> \<exists>s. qinv q s"
proof (induction rule: reachable.induct)
  case (reach_build img q)
  then show ?case by (rule qinv_build)
next
  case (reach_prune q tol)
  then show ?case using qinv_prune by blast
next
  case (reach_flip q q')
  then obtain s where s: "qinv q s" by blast
  from FlipHorizontal_qinv [OF s] reach_flip.hyps(2) qinv_sflip [OF s] show ?case by auto
next
  case (reach_rotate q q')
  then obtain s where s: "qinv q s" by blast
  from RotateCCW_qinv [OF s] reach_rotate.hyps(2) qinv_srot [OF s] show ?case by auto
qed

text \<open>
  Every rectangle of a laid-out shape lies inside the rectangle of its root, and the
  stored width and height of a reachable tree are those of the image, possibly exchanged.
\<close>

lemma arrange_bounds:
  assumes "arrange w h nw ne sw se" "shp nw" "shp ne" "shp sw" "shp se" "1 \<le> w" "1 \<le> h"
  shows "0 \<le> swidth nw \<and> swidth nw \<le> w \<and> 0 \<le> sheight nw \<and> sheight nw \<le> h"
    and "0 \<le> swidth ne \<and> swidth ne \<le> w \<and> 0 \<le> sheight ne \<and> sheight ne \<le> h"
    and "0 \<le> swidth sw \<and> swidth sw \<le> w \<and> 0 \<le> sheight sw \<and> sheight sw \<le> h"
    and "0 \<le> swidth se \<and> swidth se \<le> w \<and> 0 \<le> sheight se \<and> sheight se \<le> h"
proof -
  have "(0 \<le> swidth nw \<and> swidth nw \<le> w \<and> 0 \<le> sheight nw \<and> sheight nw \<le> h)
      \<and> (0 \<le> swidth ne \<and> swidth ne \<le> w \<and> 0 \<le> sheight ne \<and> sheight ne \<le> h)
      \<and> (0 \<le> swidth sw \<and> swidth sw \<le> w \<and> 0 \<le> sheight sw \<and> sheight sw \<le> h)
      \<and> (0 \<le> swidth se \<and> swidth se \<le> w \<and> 0 \<le> sheight se \<and> sheight se \<le> h)"
    using assms(1,6,7) shp_pos [OF assms(2)] shp_pos [OF assms(3)] shp_pos [OF assms(4)]
      shp_pos [OF assms(5)]
    unfolding arrange_def by (elim disjE conjE) simp_all
  then show "0 \<le> swidth nw \<and> swidth nw \<le> w \<and> 0 \<le> sheight nw \<and> sheight nw \<le> h"
    and "0 \<le> swidth ne \<and> swidth ne \<le> w \<and> 0 \<le> sheight ne \<and> sheight ne \<le> h"
    and "0 \<le> swidth sw \<and> swidth sw \<le> w \<and> 0 \<le> sheight sw \<and> sheight sw \<le> h"
    and "0 \<le> swidth se \<and> swidth se \<le> w \<and> 0 \<le> sheight se \<and> sheight se \<le> h"
    by simp_all
qed

lemma place_inFrame:
  "shp s \<Longrightarrow> 0 \<le> x \<Longrightarrow> 0 \<le> y \<Longrightarrow> x + swidth s \<le> W \<Longrightarrow> y + sheight s \<le> H \<Longrightarrow>
     inFrame W H (place x y s)"
proof (induction s arbitrary: x y)
  case SNull
  show ?case by simp
next
  case (SNode w h a nw ne sw se)
  from SNode.prems(1) have kids: "shp nw" "shp ne" "shp sw" "shp se"
    and arr: "arrange w h nw ne sw se" and pos: "1 \<le> w" "1 \<le> h" by simp_all
  note bnd = arrange_bounds [OF arr kids pos]
  from SNode.prems(4,5) have fit: "x + w \<le> W" "y + h \<le> H" by simp_all
  have "inFrame W H (place x y nw)"
    using bnd(1) SNode.prems(2,3) fit by (intro SNode.IH(1) [OF kids(1)]) linarith+
  moreover have "inFrame W H (place (x + w - swidth ne) y ne)"
    using bnd(2) SNode.prems(2,3) fit by (intro SNode.IH(2) [OF kids(2)]) linarith+
  moreover have "inFrame W H (place x (y + h - sheight sw) sw)"
    using bnd(3) SNode.prems(2,3) fit by (intro SNode.IH(3) [OF kids(3)]) linarith+
  moreover have "inFrame W H (place (x + w - swidth se) (y + h - sheight se) se)"
    using bnd(4) SNode.prems(2,3) fit by (intro SNode.IH(4) [OF kids(4)]) linarith+
  ultimately show ?case using pos SNode.prems(2,3) fit by simp
qed

lemma reachable_size:
  "reachable d q \<Longrightarrow> 0 < width q \<and> 0 < height q \<and> width q * height q < 2147483648"
proof (induction rule: reachable.induct)
  case (reach_build img q)
  then show ?case by (auto simp: QTree_of_PNG_def Let_def split: option.splits)
next
  case (reach_prune q tol)
  then show ?case by (simp add: Prune_def)
next
  case (reach_flip q q')
  then show ?case by (auto simp: FlipHorizontal_def split: option.splits)
next
  case (reach_rotate q q')
  then show ?case
    by (auto simp: RotateCCW_def mult.commute split: option.splits node.splits
        simp del: RotateSubtree.simps)
qed

section \<open>Colours are kept by flip and rotation\<close>

lemma setCorners_if: "(if k \<noteq> Null then setCorners k p q else k) = setCorners k p q"
  by (cases k) simp_all

lemma FlipNode_step:
  assumes "FlipNode (Node ul lr a nw ne sw se) = Some t'"
  shows "\<exists>nw2 ne2 sw2 se2 p1 q1 p2 q2 p3 q3 p4 q4.
     t' = Node ul lr a nw2 ne2 sw2 se2
     \<and> FlipNode (setCorners ne p1 q1) = Some nw2
     \<and> FlipNode (setCorners nw p2 q2) = Some ne2
     \<and> FlipNode (setCorners se p3 q3) = Some sw2
     \<and> FlipNode (setCorners sw p4 q4) = Some se2"
proof (cases "nw = Null \<and> ne = Null \<and> sw = Null \<and> se = Null")
  case True
  with assms have "t' = Node ul lr a Null Null Null Null" by auto
  with True show ?thesis by auto
next
  case False
  with assms show ?thesis
    by (simp add: Let_def setCorners_if del: split_paired_Ex
        split: option.splits prod.splits if_splits) blast+
qed

lemma RotateSubtree_step:
  assumes "RotateSubtree (Node ul lr a nw ne sw se) = Some t'"
  shows "\<exists>nw2 ne2 sw2 se2 p1 q1 p2 q2 p3 q3 p4 q4.
     t' = Node ul lr a nw2 ne2 sw2 se2
     \<and> RotateSubtree (setCorners ne p1 q1) = Some nw2
     \<and> RotateSubtree (setCorners se p2 q2) = Some ne2
     \<and> RotateSubtree (setCorners nw p3 q3) = Some sw2
     \<and> RotateSubtree (setCorners sw p4 q4) = Some se2"
proof (cases "nw = Null \<and> ne = Null \<and> sw = Null \<and> se = Null")
  case True
  with assms have "t' = Node ul lr a Null Null Null Null" by auto
  with True show ?thesis by auto
next
  case False
  with assms show ?thesis
    by (simp add: Let_def setCorners_if del: split_paired_Ex
        split: option.splits prod.splits if_splits) blast+
qed

lemma FlipNode_frame:
  "FlipNode (setCorners t p q) = Some t' \<Longrightarrow>
     avgs t' = avgs t \<and> unplaced t' = swapEW (unplaced t)"
proof (induction t arbitrary: p q t')
  case Null
  then show ?case by auto
next
  case (Node ul lr a nw ne sw se)
  from Node.prems have "FlipNode (Node p q a nw ne sw se) = Some t'" by simp
  from FlipNode_step [OF this] obtain nw2 ne2 sw2 se2 p1 q1 p2 q2 p3 q3 p4 q4 where
    t': "t' = Node p q a nw2 ne2 sw2 se2" and
    k: "FlipNode (setCorners ne p1 q1) = Some nw2" "FlipNode (setCorners nw p2 q2) = Some ne2"
      "FlipNode (setCorners se p3 q3) = Some sw2" "FlipNode (setCorners sw p4 q4) = Some se2"
    by blast
  from Node.IH(2) [OF k(1)] Node.IH(1) [OF k(2)] Node.IH(4) [OF k(3)] Node.IH(3) [OF k(4)]
  show ?case by (simp add: t')
qed

lemma RotateSubtree_frame:
  "RotateSubtree (setCorners t p q) = Some t' \<Longrightarrow>
     avgs t' = avgs t \<and> unplaced t' = cycleCCW (unplaced t)"
proof (induction t arbitrary: p q t')
  case Null
  then show ?case by auto
next
  case (Node ul lr a nw ne sw se)
  from Node.prems have "RotateSubtree (Node p q a nw ne sw se) = Some t'" by simp
  from RotateSubtree_step [OF this] obtain nw2 ne2 sw2 se2 p1 q1 p2 q2 p3 q3 p4 q4 where
    t': "t' = Node p q a nw2 ne2 sw2 se2" and
    k: "RotateSubtree (setCorners ne p1 q1) = Some nw2"
      "RotateSubtree (setCorners se p2 q2) = Some ne2"
      "RotateSubtree (setCorners nw p3 q3) = Some sw2"
      "RotateSubtree (setCorners sw p4 q4) = Some se2"
    by blast
  from Node.IH(2) [OF k(1)] Node.IH(4) [OF k(2)] Node.IH(1) [OF k(3)] Node.IH(3) [OF k(4)]
  show ?case by (simp add: t')
qed

lemma setCorners_same: "t \<noteq> Null \<Longrightarrow> setCorners t (upLeft t) (lowRight t) = t"
  by (cases t) simp_all

section \<open>Averages of built trees\<close>

lemma hasRect_iff: "hasRect t ul lr \<longleftrightarrow> t \<noteq> Null \<and> upLeft t = ul \<and> lowRight t = lr"
  by (cases t) auto

lemma ceiling_half: "\<lceil>real_of_int x / 2\<rceil> = ceil_half x"
  by (simp add: ceil_half_def)

lemma built_splitRule: "built img t \<Longrightarrow> splitRule img t"
proof (induction rule: built.induct)
  case (built_leaf x y)
  show ?case by simp
next
  case (built_v y0 y1 hh nw sw x t)
  from assignColor_Some [OF built_v.hyps(9)] obtain a where
    t: "t = Node (x, y0) (x, y1) a nw Null sw Null" by blast
  show ?case
    using built_v.IH built_v.hyps(1,2,5-8) built_not_Null [OF built_v.hyps(3)]
      built_not_Null [OF built_v.hyps(4)]
    by (simp add: t hasRect_iff ceiling_half)
next
  case (built_h x0 x1 hw nw ne y t)
  from assignColor_Some [OF built_h.hyps(9)] obtain a where
    t: "t = Node (x0, y) (x1, y) a nw ne Null Null" by blast
  show ?case
    using built_h.IH built_h.hyps(1,2,5-8) built_not_Null [OF built_h.hyps(3)]
      built_not_Null [OF built_h.hyps(4)]
    by (simp add: t hasRect_iff ceiling_half)
next
  case (built_q x0 x1 y0 y1 hw hh nw ne sw se t)
  from assignColor_Some [OF built_q.hyps(17)] obtain a where
    t: "t = Node (x0, y0) (x1, y1) a nw ne sw se" by blast
  show ?case
    using built_q.IH built_q.hyps(1-4,9-16) built_not_Null [OF built_q.hyps(5)]
      built_not_Null [OF built_q.hyps(6)] built_not_Null [OF built_q.hyps(7)]
      built_not_Null [OF built_q.hyps(8)]
    by (simp add: t hasRect_iff ceiling_half)
qed

lemma sdiv_nonneg: "0 \<le> (m::int) \<Longrightarrow> 0 < n \<Longrightarrow> m sdiv n = m div n"
  by (simp add: signed_divide_int_def sgn_if)

lemma uint_le_255: "uint (c :: 8 word) \<le> 255"
  using uint_lt2p [of c] by simp

lemma prod_le_255: "0 \<le> k \<Longrightarrow> k * uint (c :: 8 word) \<le> k * 255"
  by (rule mult_left_mono [OF uint_le_255])

lemma mean_small:
  assumes "0 \<le> (n::int)" "n \<le> 255 * d" "0 < d"
  shows "uint (word_of_int (n div d) :: 8 word) = n div d"
proof -
  have "n div d \<le> (255 * d) div d" using assms(2,3) by (intro zdiv_mono1) simp_all
  then have "n div d \<le> 255" using assms(3) by simp
  moreover have "0 \<le> n div d" using assms by (simp add: pos_imp_zdiv_nonneg_iff)
  ultimately show ?thesis by (simp add: uint_word_of_int take_bit_eq_mod)
qed

lemma mix2_exact:
  assumes "0 < a1" "0 < a2" "(a1 + a2) * 255 < 2147483648"
  shows "uint (mix2 a1 c1 a2 c2 (a1 + a2))
     = (a1 * uint c1 + a2 * uint c2) div (a1 + a2)"
proof -
  define v1 where "v1 = a1 * uint c1"
  define v2 where "v2 = a2 * uint c2"
  have bound: "255 * a1 + 255 * a2 < 2147483648" using assms(3) by (simp add: algebra_simps)
  have p1: "0 \<le> v1" "v1 \<le> 255 * a1"
    using assms(1) prod_le_255 [of a1 c1] by (simp_all add: v1_def mult.commute)
  have p2: "0 \<le> v2" "v2 \<le> 255 * a2"
    using assms(2) prod_le_255 [of a2 c2] by (simp_all add: v2_def mult.commute)
  have e1: "i32 v1 = v1" using p1 p2 assms(1,2) bound by (intro i32_id) linarith+
  have e2: "i32 v2 = v2" using p1 p2 assms(1,2) bound by (intro i32_id) linarith+
  have e3: "i32 (v1 + v2) = v1 + v2" using p1 p2 assms(1,2) bound by (intro i32_id) linarith+
  have nn: "0 \<le> v1 + v2" "0 < a1 + a2" using p1 p2 assms(1,2) by linarith+
  have "mix2 a1 c1 a2 c2 (a1 + a2) = word_of_int (i32 (i32 v1 + i32 v2) sdiv (a1 + a2))"
    by (simp only: mix2_def v1_def v2_def)
  also have "\<dots> = word_of_int ((v1 + v2) div (a1 + a2))"
    by (simp only: e1 e2 e3 sdiv_nonneg [OF nn])
  finally have "uint (mix2 a1 c1 a2 c2 (a1 + a2))
      = uint (word_of_int ((v1 + v2) div (a1 + a2)) :: 8 word)" by simp
  also have "\<dots> = (v1 + v2) div (a1 + a2)"
    using p1 p2 nn by (intro mean_small) (simp_all add: distrib_left)
  finally show ?thesis by (simp only: v1_def v2_def)
qed

lemma mix4_exact:
  assumes "0 < a1" "0 < a2" "0 < a3" "0 < a4" "(a1 + a2 + a3 + a4) * 255 < 2147483648"
  shows "uint (mix4 a1 c1 a2 c2 a3 c3 a4 c4 (a1 + a2 + a3 + a4))
     = (a1 * uint c1 + a2 * uint c2 + a3 * uint c3 + a4 * uint c4) div (a1 + a2 + a3 + a4)"
proof -
  define v1 where "v1 = a1 * uint c1"
  define v2 where "v2 = a2 * uint c2"
  define v3 where "v3 = a3 * uint c3"
  define v4 where "v4 = a4 * uint c4"
  have bound: "255 * a1 + 255 * a2 + 255 * a3 + 255 * a4 < 2147483648"
    using assms(5) by (simp add: algebra_simps)
  have p1: "0 \<le> v1" "v1 \<le> 255 * a1"
    using assms(1) prod_le_255 [of a1 c1] by (simp_all add: v1_def mult.commute)
  have p2: "0 \<le> v2" "v2 \<le> 255 * a2"
    using assms(2) prod_le_255 [of a2 c2] by (simp_all add: v2_def mult.commute)
  have p3: "0 \<le> v3" "v3 \<le> 255 * a3"
    using assms(3) prod_le_255 [of a3 c3] by (simp_all add: v3_def mult.commute)
  have p4: "0 \<le> v4" "v4 \<le> 255 * a4"
    using assms(4) prod_le_255 [of a4 c4] by (simp_all add: v4_def mult.commute)
  note facts = p1 p2 p3 p4 assms(1-4) bound
  have e1: "i32 v1 = v1" using facts by (intro i32_id) linarith+
  have e2: "i32 v2 = v2" using facts by (intro i32_id) linarith+
  have e3: "i32 v3 = v3" using facts by (intro i32_id) linarith+
  have e4: "i32 v4 = v4" using facts by (intro i32_id) linarith+
  have f1: "i32 (v1 + v2) = v1 + v2" using facts by (intro i32_id) linarith+
  have f2: "i32 (v1 + v2 + v3) = v1 + v2 + v3" using facts by (intro i32_id) linarith+
  have f3: "i32 (v1 + v2 + v3 + v4) = v1 + v2 + v3 + v4" using facts by (intro i32_id) linarith+
  have nn: "0 \<le> v1 + v2 + v3 + v4" "0 < a1 + a2 + a3 + a4" using facts by linarith+
  have "mix4 a1 c1 a2 c2 a3 c3 a4 c4 (a1 + a2 + a3 + a4)
      = word_of_int (i32 (i32 (i32 (i32 v1 + i32 v2) + i32 v3) + i32 v4)
          sdiv (a1 + a2 + a3 + a4))"
    by (simp only: mix4_def v1_def v2_def v3_def v4_def)
  also have "\<dots> = word_of_int ((v1 + v2 + v3 + v4) div (a1 + a2 + a3 + a4))"
    by (simp only: e1 e2 e3 e4 f1 f2 f3 sdiv_nonneg [OF nn])
  finally have "uint (mix4 a1 c1 a2 c2 a3 c3 a4 c4 (a1 + a2 + a3 + a4))
      = uint (word_of_int ((v1 + v2 + v3 + v4) div (a1 + a2 + a3 + a4)) :: 8 word)" by simp
  also have "\<dots> = (v1 + v2 + v3 + v4) div (a1 + a2 + a3 + a4)"
    using facts nn by (intro mean_small) (simp_all add: distrib_left)
  finally show ?thesis by (simp only: v1_def v2_def v3_def v4_def)
qed

lemma weighted_eq: "t \<noteq> Null \<Longrightarrow> weighted ch t = rectArea t * uint (ch (avg t))"
  by (cases t) simp_all

lemma same_mean: "0 < (d::int) \<Longrightarrow> (d * k) div d = k"
  by simp

lemma built_avg:
  "built img t \<Longrightarrow>
     0 < rectArea t \<and>
     (rectArea t * 255 < 2147483648 \<longrightarrow>
        avgRule t \<and> ((\<forall>x y. getPixel img x y = c) \<longrightarrow> avg t = c))"
proof (induction rule: built.induct)
  case (built_leaf x y)
  show ?case by simp
next
  case (built_v y0 y1 hh nw sw x t)
  have nn: "nw \<noteq> Null" "sw \<noteq> Null"
    using built_not_Null built_v.hyps(3,4) by blast+
  define A1 where "A1 = rectArea nw"
  define A3 where "A3 = rectArea sw"
  have pos: "0 < A1" "0 < A3" using built_v.IH by (simp_all add: A1_def A3_def)
  have A1: "A1 = hh" using rectArea_corners [OF nn(1) built_v.hyps(5,6)] by (simp add: A1_def)
  have A3: "A3 = y1 - y0 - hh + 1"
    using rectArea_corners [OF nn(2) built_v.hyps(7,8)] by (simp add: A3_def)
  obtain a' where t0: "t = Node (x, y0) (x, y1) a' nw Null sw Null"
    using assignColor_Some [OF built_v.hyps(9)] by blast
  have area: "rectArea t = A1 + A3" by (simp add: t0 A1 A3)
  have t: "t = Node (x, y0) (x, y1)
       (RGBAPixel
         (mix2 A1 (r (avg nw)) A3 (r (avg sw)) (A1 + A3))
         (mix2 A1 (g (avg nw)) A3 (g (avg sw)) (A1 + A3))
         (mix2 A1 (b (avg nw)) A3 (b (avg sw)) (A1 + A3)))
       nw Null sw Null" if "A1 + A3 < 2147483648"
    using built_v.hyps(9)
    by (simp only: assignColor_v_eq [OF nn pos [unfolded A1_def A3_def] that [unfolded A1_def A3_def]]
        A1_def A3_def option.inject)
  show ?case
  proof (intro conjI impI)
    show "0 < rectArea t" using area pos by simp
  next
    assume b: "rectArea t * 255 < 2147483648"
    then have b': "(A1 + A3) * 255 < 2147483648" by (simp only: area)
    then have small: "A1 * 255 < 2147483648" "A3 * 255 < 2147483648" "A1 + A3 < 2147483648"
      using pos by (simp_all add: algebra_simps)
    then have kids: "avgRule nw" "avgRule sw" using built_v.IH by (simp_all add: A1_def A3_def)
    show "avgRule t"
      using kids nn mix2_exact [OF pos b']
      by (simp add: t [OF small(3)] areaMean_def weighted_eq A1_def A3_def)
  next
    assume b: "rectArea t * 255 < 2147483648" and u: "\<forall>x y. getPixel img x y = c"
    from b have b': "(A1 + A3) * 255 < 2147483648" by (simp only: area)
    then have small: "A1 * 255 < 2147483648" "A3 * 255 < 2147483648" "A1 + A3 < 2147483648"
      using pos by (simp_all add: algebra_simps)
    then have kids: "avg nw = c" "avg sw = c" using built_v.IH u by (simp_all add: A1_def A3_def)
    have "uint (mix2 A1 k A3 k (A1 + A3)) = uint k" for k
      using mix2_exact [OF pos b', of k k] pos same_mean [of "A1 + A3" "uint k"]
      by (simp add: algebra_simps)
    then have "mix2 A1 k A3 k (A1 + A3) = k" for k
      by (simp add: word_uint_eq_iff)
    then show "avg t = c" by (simp add: t [OF small(3)] kids)
  qed
next
  case (built_h x0 x1 hw nw ne y t)
  have nn: "nw \<noteq> Null" "ne \<noteq> Null"
    using built_not_Null built_h.hyps(3,4) by blast+
  define A1 where "A1 = rectArea nw"
  define A2 where "A2 = rectArea ne"
  have pos: "0 < A1" "0 < A2" using built_h.IH by (simp_all add: A1_def A2_def)
  have A1: "A1 = hw" using rectArea_corners [OF nn(1) built_h.hyps(5,6)] by (simp add: A1_def)
  have A2: "A2 = x1 - x0 - hw + 1"
    using rectArea_corners [OF nn(2) built_h.hyps(7,8)] by (simp add: A2_def)
  obtain a' where t0: "t = Node (x0, y) (x1, y) a' nw ne Null Null"
    using assignColor_Some [OF built_h.hyps(9)] by blast
  have area: "rectArea t = A1 + A2" by (simp add: t0 A1 A2)
  have t: "t = Node (x0, y) (x1, y)
       (RGBAPixel
         (mix2 A1 (r (avg nw)) A2 (r (avg ne)) (A1 + A2))
         (mix2 A1 (g (avg nw)) A2 (g (avg ne)) (A1 + A2))
         (mix2 A1 (b (avg nw)) A2 (b (avg ne)) (A1 + A2)))
       nw ne Null Null" if "A1 + A2 < 2147483648"
    using built_h.hyps(9)
    by (simp only: assignColor_h_eq [OF nn pos [unfolded A1_def A2_def] that [unfolded A1_def A2_def]]
        A1_def A2_def option.inject)
  show ?case
  proof (intro conjI impI)
    show "0 < rectArea t" using area pos by simp
  next
    assume b: "rectArea t * 255 < 2147483648"
    then have b': "(A1 + A2) * 255 < 2147483648" by (simp only: area)
    then have small: "A1 * 255 < 2147483648" "A2 * 255 < 2147483648" "A1 + A2 < 2147483648"
      using pos by (simp_all add: algebra_simps)
    then have kids: "avgRule nw" "avgRule ne" using built_h.IH by (simp_all add: A1_def A2_def)
    show "avgRule t"
      using kids nn mix2_exact [OF pos b']
      by (simp add: t [OF small(3)] areaMean_def weighted_eq A1_def A2_def)
  next
    assume b: "rectArea t * 255 < 2147483648" and u: "\<forall>x y. getPixel img x y = c"
    from b have b': "(A1 + A2) * 255 < 2147483648" by (simp only: area)
    then have small: "A1 * 255 < 2147483648" "A2 * 255 < 2147483648" "A1 + A2 < 2147483648"
      using pos by (simp_all add: algebra_simps)
    then have kids: "avg nw = c" "avg ne = c" using built_h.IH u by (simp_all add: A1_def A2_def)
    have "uint (mix2 A1 k A2 k (A1 + A2)) = uint k" for k
      using mix2_exact [OF pos b', of k k] pos same_mean [of "A1 + A2" "uint k"]
      by (simp add: algebra_simps)
    then have "mix2 A1 k A2 k (A1 + A2) = k" for k
      by (simp add: word_uint_eq_iff)
    then show "avg t = c" by (simp add: t [OF small(3)] kids)
  qed
next
  case (built_q x0 x1 y0 y1 hw hh nw ne sw se t)
  have nn: "nw \<noteq> Null" "ne \<noteq> Null" "sw \<noteq> Null" "se \<noteq> Null"
    using built_not_Null built_q.hyps(5-8) by blast+
  define A1 where "A1 = rectArea nw"
  define A2 where "A2 = rectArea ne"
  define A3 where "A3 = rectArea sw"
  define A4 where "A4 = rectArea se"
  have pos: "0 < A1" "0 < A2" "0 < A3" "0 < A4"
    using built_q.IH by (simp_all add: A1_def A2_def A3_def A4_def)
  have A1: "A1 = hw * hh"
    using rectArea_corners [OF nn(1) built_q.hyps(9,10)] by (simp add: A1_def)
  have A2: "A2 = (x1 - x0 - hw + 1) * hh"
    using rectArea_corners [OF nn(2) built_q.hyps(11,12)] by (simp add: A2_def)
  have A3: "A3 = hw * (y1 - y0 - hh + 1)"
    using rectArea_corners [OF nn(3) built_q.hyps(13,14)] by (simp add: A3_def)
  have A4: "A4 = (x1 - (x0 + hw) + 1) * (y1 - (y0 + hh) + 1)"
    using rectArea_corners [OF nn(4) built_q.hyps(15,16)] by (simp add: A4_def)
  let ?tot = "A1 + A2 + A3 + A4"
  obtain a' where t0: "t = Node (x0, y0) (x1, y1) a' nw ne sw se"
    using assignColor_Some [OF built_q.hyps(17)] by blast
  have area: "rectArea t = A1 + A2 + A3 + A4" by (simp add: t0 A1 A2 A3 A4 algebra_simps)
  have t: "t = Node (x0, y0) (x1, y1)
       (RGBAPixel
         (mix4 A1 (r (avg nw)) A2 (r (avg ne)) A3 (r (avg sw)) A4 (r (avg se)) ?tot)
         (mix4 A1 (g (avg nw)) A2 (g (avg ne)) A3 (g (avg sw)) A4 (g (avg se)) ?tot)
         (mix4 A1 (b (avg nw)) A2 (b (avg ne)) A3 (b (avg sw)) A4 (b (avg se)) ?tot))
       nw ne sw se" if "A1 + A2 + A3 + A4 < 2147483648"
    using built_q.hyps(17)
    by (simp only: assignColor_else_eq [OF nn pos [unfolded A1_def A2_def A3_def A4_def]
          that [unfolded A1_def A2_def A3_def A4_def]]
        A1_def A2_def A3_def A4_def option.inject)
  show ?case
  proof (intro conjI impI)
    show "0 < rectArea t" using area pos by simp
  next
    assume b: "rectArea t * 255 < 2147483648"
    then have b': "(A1 + A2 + A3 + A4) * 255 < 2147483648" by (simp only: area)
    then have small: "A1 * 255 < 2147483648" "A2 * 255 < 2147483648"
        "A3 * 255 < 2147483648" "A4 * 255 < 2147483648" "A1 + A2 + A3 + A4 < 2147483648"
      using pos by (simp_all add: algebra_simps)
    then have kids: "avgRule nw" "avgRule ne" "avgRule sw" "avgRule se"
      using built_q.IH by (simp_all add: A1_def A2_def A3_def A4_def)
    show "avgRule t"
      using kids nn mix4_exact [OF pos b']
      by (simp add: t [OF small(5)] areaMean_def weighted_eq A1_def A2_def A3_def A4_def)
  next
    assume b: "rectArea t * 255 < 2147483648" and u: "\<forall>x y. getPixel img x y = c"
    from b have b': "(A1 + A2 + A3 + A4) * 255 < 2147483648" by (simp only: area)
    then have small: "A1 * 255 < 2147483648" "A2 * 255 < 2147483648"
        "A3 * 255 < 2147483648" "A4 * 255 < 2147483648" "A1 + A2 + A3 + A4 < 2147483648"
      using pos by (simp_all add: algebra_simps)
    then have kids: "avg nw = c" "avg ne = c" "avg sw = c" "avg se = c"
      using built_q.IH u by (simp_all add: A1_def A2_def A3_def A4_def)
    have "uint (mix4 A1 k A2 k A3 k A4 k ?tot) = uint k" for k
      using mix4_exact [OF pos b', of k k k k] pos same_mean [of "A1 + A2 + A3 + A4" "uint k"]
      by (simp add: algebra_simps)
    then have "mix4 A1 k A2 k A3 k A4 k ?tot = k" for k
      by (simp add: word_uint_eq_iff)
    then show "avg t = c" by (simp add: t [OF small(5)] kids)
  qed
qed

lemma white_quadrant:
  assumes "x0 \<le> x1" "y0 \<le> y1" "(x1 - x0 + 1) * (y1 - y0 + 1) * 255 < 2147483648"
  shows "\<exists>t. BuildNode white_image (x0, y0) (x1, y1) = Some t \<and> t \<noteq> Null
     \<and> rectArea t = (x1 - x0 + 1) * (y1 - y0 + 1) \<and> avg t = RGBAPixel 255 255 255"
proof -
  have "0 < (x1 - x0 + 1) * (y1 - y0 + 1)" using assms(1,2) by simp
  then have small: "(x1 - x0 + 1) * (y1 - y0 + 1) < 2147483648" using assms(3) by linarith
  obtain t where t: "BuildNode white_image (x0, y0) (x1, y1) = Some t" "built white_image t"
      "upLeft t = (x0, y0)" "lowRight t = (x1, y1)"
    using BuildNode_built [OF assms(1,2) small] by blast
  have nn: "t \<noteq> Null" by (rule built_not_Null [OF t(2)])
  have ar: "rectArea t = (x1 - x0 + 1) * (y1 - y0 + 1)"
    by (rule rectArea_corners [OF nn t(3,4)])
  have "\<forall>x y. getPixel white_image x y = RGBAPixel 255 255 255"
    by (simp add: getPixel_def white_image_def)
  with built_avg [OF t(2), of "RGBAPixel 255 255 255"] assms(3) ar
  have "avg t = RGBAPixel 255 255 255" by simp
  with t(1) nn ar show ?thesis by blast
qed

lemma mix4_overflow:
  "mix4 3000000 255 3000000 255 3000000 255 3000000 255 12000000 = 154"
  by (simp add: mix4_def i32_def signed_divide_int_def)

section \<open>The scenario, evaluated\<close>

lemma scenario_build: "QTree_of_PNG scenario_image = Some scenario_tree"
proof -
  have "QTree_of_PNG scenario_image = Some \<lparr>height = 2, width = 2, root = scenario_root\<rparr>"
    by code_simp
  then show ?thesis by (simp only: scenario_tree_def)
qed

lemma sqrt_le_500: "x \<le> 250000 \<Longrightarrow> sqrt x \<le> 500"
  using real_sqrt_le_mono [of x 250000] by simp

lemma euclid_scenario:
  "euclid (RGBAPixel 255 0 0) (RGBAPixel 127 127 63) \<le> 500"
  "euclid (RGBAPixel 0 255 0) (RGBAPixel 127 127 63) \<le> 500"
  "euclid (RGBAPixel 0 0 255) (RGBAPixel 127 127 63) \<le> 500"
  "euclid (RGBAPixel 255 255 0) (RGBAPixel 127 127 63) \<le> 500"
  unfolding euclid_def by (rule sqrt_le_500, simp)+

lemma scenario_reachable: "reachable d scenario_tree"
  by (rule reach_build [OF _ _ _ scenario_build]) (simp_all add: scenario_image_def)

lemma scenario_pruned:
  assumes "d (RGBAPixel 255 0 0) (RGBAPixel 127 127 63) \<le> 500"
    and "d (RGBAPixel 0 255 0) (RGBAPixel 127 127 63) \<le> 500"
    and "d (RGBAPixel 0 0 255) (RGBAPixel 127 127 63) \<le> 500"
    and "d (RGBAPixel 255 255 0) (RGBAPixel 127 127 63) \<le> 500"
  shows "Prune d scenario_tree 500 =
     \<lparr>height = 2, width = 2,
      root = Node (0, 0) (1, 1) (RGBAPixel 127 127 63) Null Null Null Null\<rparr>"
  using assms by (simp add: Prune_def scenario_tree_def scenario_root_def)

lemma upto01: "[0..1::int] = [0, 1]"
  by (simp add: upto.simps)

lemma render1:
  "Render \<lparr>height = 2, width = 2, root = Node (0, 0) (1, 1) c Null Null Null Null\<rparr> 1
     = \<lparr>pngWidth = 2, pngHeight = 2, pngData = (\<lambda>x y. if (x = 0 \<or> x = 1) \<and> (y = 0 \<or> y = 1) then c else RGBAPixel_default)\<rparr>"
  by (auto simp add: Render_def newPNG_def setPixel_def upto01 fun_eq_iff)

lemma render2:
  "getPixel (Render \<lparr>height = 2, width = 2, root = Node (0, 0) (1, 1) c Null Null Null Null\<rparr> 2) 3 3 = RGBAPixel_default"
  by (simp add: Render_def newPNG_def setPixel_def upto01 getPixel_def)

section \<open>The three by two sample, evaluated\<close>

lemma sample_build: "QTree_of_PNG sample_image = Some sample_tree"
  by code_simp

lemma sample_flip: "FlipHorizontal sample_tree = Some sample_flipped"
  by code_simp

lemma sample_turn: "RotateCCW sample_flipped = Some sample_turned"
  by code_simp

lemma sample_turned_flip:
  "FlipHorizontal sample_turned = Some sample_turned_flipped"
  "FlipHorizontal sample_turned_flipped = Some sample_turned"
  by code_simp+

lemma sample_turned_leaves:
  "leafRects (root sample_turned) =
     [((0, 0), (0, 0)), ((0, 1), (0, 1)), ((1, 0), (1, 0)), ((1, 1), (1, 1)),
      ((0, 2), (0, 2)), ((1, 2), (1, 2))]"
  by (simp add: sample_turned_def)

lemma sample_reachable: "reachable d sample_turned"
proof -
  have "reachable d sample_tree"
    by (rule reach_build [OF _ _ _ sample_build]) (simp_all add: sample_image_def)
  then have "reachable d sample_flipped" by (rule reach_flip [OF _ sample_flip])
  then show ?thesis by (rule reach_rotate [OF _ sample_turn])
qed

section \<open>The properties\<close>

subsection \<open>C1: rendering at a scale\<close>

text \<open>
  C1 states that for every reachable tree and every scale \<open>k > 1\<close>, \<open>Render k\<close> is
  \<open>Render 1\<close> with every pixel replicated into a \<open>k\<close> by \<open>k\<close> block, so that a leaf of
  a pruned tree fills its whole scaled rectangle.  The code paints, for a scale other than
  1, only the one \<open>k\<close> by \<open>k\<close> block at the scaled upper left corner of each node.
  On the scenario image pruned with tolerance 500 the tree is a single leaf over the two by
  two image; rendered at scale 2, the pixel \<open>(3, 3)\<close> keeps the colour of the fresh
  canvas, where the replicated \<open>Render 1\<close> has the leaf's colour.
\<close>

theorem C1_render_scale_of_pruned_tree:
  "\<exists>q. QTree_of_PNG scenario_image = Some q
     \<and> root (Prune euclid q 500) = Node (0, 0) (1, 1) (RGBAPixel 127 127 63) Null Null Null Null
     \<and> getPixel (Render (Prune euclid q 500) 2) 3 3 = RGBAPixel 255 255 255
     \<and> getPixel (blockReplicate (Render (Prune euclid q 500) 1) 2) 3 3 = RGBAPixel 127 127 63
     \<and> Render (Prune euclid q 500) 2 \<noteq> blockReplicate (Render (Prune euclid q 500) 1) 2"
proof -
  let ?p = "Prune euclid scenario_tree 500"
  have p: "?p = \<lparr>height = 2, width = 2,
      root = Node (0, 0) (1, 1) (RGBAPixel 127 127 63) Null Null Null Null\<rparr>"
    by (rule scenario_pruned [of euclid, OF euclid_scenario])
  have a: "getPixel (Render ?p 2) 3 3 = RGBAPixel 255 255 255"
    by (simp only: p render2) (simp add: RGBAPixel_default_def)
  have b: "getPixel (blockReplicate (Render ?p 1) 2) 3 3 = RGBAPixel 127 127 63"
    by (simp only: p render1) (simp add: blockReplicate_def getPixel_def)
  from a b have "Render ?p 2 \<noteq> blockReplicate (Render ?p 1) 2" by auto
  with a b p scenario_build show ?thesis by simp
qed

subsection \<open>C2: the leaves tile the image\<close>

text \<open>
  C2: for every tree reachable from construction by any sequence of Prune, FlipHorizontal
  and RotateCCW, the rectangles of the leaves partition the rectangle from \<open>(0, 0)\<close> to
  \<open>(width - 1, height - 1)\<close>, with the tree's current width and height: they are
  pairwise non-overlapping and their union is the full rectangle.
\<close>

theorem C2_tiling:
  assumes "reachable d q"
  shows "partitions (leafRects (root q)) ((0, 0), (width q - 1, height q - 1))"
proof -
  from reachable_qinv [OF assms] obtain s where "qinv q s" ..
  then have s: "shp s" "swidth s = width q" "sheight s = height q" "root q = place 0 0 s"
    by (simp_all add: qinv_def)
  show ?thesis
  proof (rule count_partitions)
    fix px py
    show "length (filter (inRect (px, py)) (leafRects (root q)))
        = (if inRect (px, py) ((0, 0), (width q - 1, height q - 1)) then 1 else 0)"
      using leafRects_place_count [OF s(1), of px py 0 0] s(2-4) by auto
  next
    fix rc
    assume "rc \<in> set (leafRects (root q))"
    then show "fst (fst rc) \<le> fst (snd rc) \<and> snd (fst rc) \<le> snd (snd rc)"
      using leafRects_place_nonempty [OF s(1), of rc 0 0] s(4) by simp
  qed
qed

theorem C2_tiling_witness:
  "QTree_of_PNG sample_image = Some sample_tree
   \<and> FlipHorizontal sample_tree = Some sample_flipped
   \<and> RotateCCW sample_flipped = Some sample_turned
   \<and> reachable euclid sample_turned
   \<and> leafRects (root sample_turned) =
       [((0, 0), (0, 0)), ((0, 1), (0, 1)), ((1, 0), (1, 0)), ((1, 1), (1, 1)),
        ((0, 2), (0, 2)), ((1, 2), (1, 2))]
   \<and> partitions (leafRects (root sample_turned)) ((0, 0), (1, 2))"
proof -
  have r: "reachable euclid sample_turned" by (rule sample_reachable)
  have wh: "width sample_turned = 2" "height sample_turned = 3"
    by (simp_all add: sample_turned_def)
  from C2_tiling [OF r] have "partitions (leafRects (root sample_turned)) ((0, 0), (1, 2))"
    by (simp add: wh)
  with r sample_build sample_flip sample_turn sample_turned_leaves show ?thesis
    by (simp only: simp_thms)
qed

subsection \<open>C3: the average of an internal node\<close>

text \<open>
  C3 states that every internal node of a freshly built tree stores, in each channel, the
  integer-truncating area-weighted mean of the averages of its direct children.  The
  code accumulates the weighted sum in \<^verbatim>\<open>int\<close>, which overflows once the area times the
  channel value passes \<open>2^31 - 1\<close>.  On the white image of four thousand by three
  thousand pixels the four children of the root have area 3000000 and colour 255 each; the
  sum 3060000000 wraps to -1234967296, the quotient by 12000000 is -102, and the root
  stores 154 in every channel where the mean is 255.
\<close>

theorem C3_overflow:
  "\<exists>q. QTree_of_PNG white_image = Some q
     \<and> avg (root q) = RGBAPixel 154 154 154
     \<and> areaMean r (NW (root q)) (NE (root q)) (SW (root q)) (SE (root q)) = 255
     \<and> areaMean g (NW (root q)) (NE (root q)) (SW (root q)) (SE (root q)) = 255
     \<and> areaMean b (NW (root q)) (NE (root q)) (SW (root q)) (SE (root q)) = 255
     \<and> \<not> avgRule (root q)"
proof -
  obtain nw where nw: "BuildNode white_image (0, 0) (1999, 1499) = Some nw" "nw \<noteq> Null"
      "rectArea nw = 3000000" "avg nw = RGBAPixel 255 255 255"
    using white_quadrant [of 0 1999 0 1499] by auto
  obtain ne where ne: "BuildNode white_image (2000, 0) (3999, 1499) = Some ne" "ne \<noteq> Null"
      "rectArea ne = 3000000" "avg ne = RGBAPixel 255 255 255"
    using white_quadrant [of 2000 3999 0 1499] by auto
  obtain sw where sw: "BuildNode white_image (0, 1500) (1999, 2999) = Some sw" "sw \<noteq> Null"
      "rectArea sw = 3000000" "avg sw = RGBAPixel 255 255 255"
    using white_quadrant [of 0 1999 1500 2999] by auto
  obtain se where se: "BuildNode white_image (2000, 1500) (3999, 2999) = Some se" "se \<noteq> Null"
      "rectArea se = 3000000" "avg se = RGBAPixel 255 255 255"
    using white_quadrant [of 2000 3999 1500 2999] by auto
  let ?t = "Node (0, 0) (3999, 2999) (RGBAPixel 154 154 154) nw ne sw se"
  have "BuildNode white_image (0, 0) (3999, 2999) =
      (case BuildNode white_image (0, 0) (1999, 1499) of None \<Rightarrow> None | Some nw \<Rightarrow>
      (case BuildNode white_image (2000, 0) (3999, 1499) of None \<Rightarrow> None | Some ne \<Rightarrow>
      (case BuildNode white_image (0, 1500) (1999, 2999) of None \<Rightarrow> None | Some sw \<Rightarrow>
      (case BuildNode white_image (2000, 1500) (3999, 2999) of None \<Rightarrow> None | Some se \<Rightarrow>
         assignColor (Node (0, 0) (3999, 2999) RGBAPixel_default nw ne sw se) ''else''))))"
    using BuildNode_q [of 0 3999 0 2999 white_image]
    by (simp add: ceil_half_div cong: option.case_cong)
  then have "BuildNode white_image (0, 0) (3999, 2999) = Some ?t"
    by (simp add: nw(1) ne(1) sw(1) se(1)
        assignColor_else_eq [OF nw(2) ne(2) sw(2) se(2)] nw(3,4) ne(3,4) sw(3,4) se(3,4)
        mix4_overflow del: assignColor.simps)
  then have q: "QTree_of_PNG white_image = Some \<lparr>height = 3000, width = 4000, root = ?t\<rparr>"
    by (simp add: QTree_of_PNG_def white_image_def)
  have m: "areaMean ch nw ne sw se = 255" if "ch (RGBAPixel 255 255 255) = 255" for ch
    using that by (simp add: areaMean_def weighted_eq nw(2-4) ne(2-4) sw(2-4) se(2-4))
  have "\<not> avgRule ?t" using nw(2) m [of r] by simp
  with q m [of r] m [of g] m [of b] show ?thesis by simp
qed

subsection \<open>C4: what Prune collapses\<close>



subsection \<open>C5: flipping twice\<close>

text \<open>
  C5: for every reachable tree, FlipHorizontal applied twice succeeds both times and
  yields a tree whose rendering, at every scale, is identical to the rendering before the
  two flips.
\<close>

theorem C5_flip_twice:
  assumes "reachable d q"
  shows "\<exists>q1 q2. FlipHorizontal q = Some q1 \<and> FlipHorizontal q1 = Some q2
     \<and> (\<forall>scale. Render q2 scale = Render q scale)"
proof -
  from reachable_qinv [OF assms] obtain s where s: "qinv q s" ..
  let ?q1 = "q\<lparr>root := place 0 0 (sflip s)\<rparr>"
  have 1: "FlipHorizontal q = Some ?q1" by (rule FlipHorizontal_qinv [OF s])
  have "FlipHorizontal ?q1 = Some (?q1\<lparr>root := place 0 0 (sflip (sflip s))\<rparr>)"
    by (rule FlipHorizontal_qinv [OF qinv_sflip [OF s]])
  moreover have "?q1\<lparr>root := place 0 0 (sflip (sflip s))\<rparr> = q"
    using s by (simp add: qinv_def)
  ultimately have 2: "FlipHorizontal ?q1 = Some q" by simp
  from 1 2 show ?thesis by blast
qed

theorem C5_flip_twice_witness:
  "reachable euclid sample_turned
   \<and> FlipHorizontal sample_turned = Some sample_turned_flipped
   \<and> FlipHorizontal sample_turned_flipped = Some sample_turned
   \<and> (\<exists>q1 q2. FlipHorizontal sample_turned = Some q1 \<and> FlipHorizontal q1 = Some q2
         \<and> (\<forall>scale. Render q2 scale = Render sample_turned scale))"
proof -
  have r: "reachable euclid sample_turned" by (rule sample_reachable)
  from C5_flip_twice [OF r] r sample_turned_flip show ?thesis by (simp only: simp_thms)
qed

subsection \<open>C6: rotating four times\<close>

text \<open>
  C6: for every reachable tree, RotateCCW applied four times succeeds each time, restores
  the stored width and height, and yields a tree whose rendering, at every scale, is
  identical to the rendering before the four rotations.
\<close>

theorem C6_rotate_four_times:
  assumes "reachable d q"
  shows "\<exists>q1 q2 q3 q4. RotateCCW q = Some q1 \<and> RotateCCW q1 = Some q2
     \<and> RotateCCW q2 = Some q3 \<and> RotateCCW q3 = Some q4
     \<and> width q4 = width q \<and> height q4 = height q
     \<and> (\<forall>scale. Render q4 scale = Render q scale)"
proof -
  from reachable_qinv [OF assms] obtain s where s: "qinv q s" ..
  let ?q1 = "\<lparr>height = width q, width = height q, root = place 0 0 (srot s)\<rparr>"
  let ?q2 = "\<lparr>height = height q, width = width q, root = place 0 0 (srot (srot s))\<rparr>"
  let ?q3 = "\<lparr>height = width q, width = height q, root = place 0 0 (srot (srot (srot s)))\<rparr>"
  have 1: "RotateCCW q = Some ?q1" by (rule RotateCCW_qinv [OF s])
  have i1: "qinv ?q1 (srot s)" by (rule qinv_srot [OF s])
  have 2: "RotateCCW ?q1 = Some ?q2" using RotateCCW_qinv [OF i1] by simp
  have i2: "qinv ?q2 (srot (srot s))" using qinv_srot [OF i1] by simp
  have 3: "RotateCCW ?q2 = Some ?q3" using RotateCCW_qinv [OF i2] by simp
  have i3: "qinv ?q3 (srot (srot (srot s)))" using qinv_srot [OF i2] by simp
  have "RotateCCW ?q3 = Some \<lparr>height = height q, width = width q, root = place 0 0 s\<rparr>"
    using RotateCCW_qinv [OF i3] by simp
  moreover have "\<lparr>height = height q, width = width q, root = place 0 0 s\<rparr> = q"
    using s by (simp add: qinv_def)
  ultimately have 4: "RotateCCW ?q3 = Some q" by simp
  from 1 2 3 4 show ?thesis by blast
qed

theorem C6_rotate_four_times_witness:
  "reachable euclid scenario_tree
   \<and> (\<exists>q1 q2 q3 q4. RotateCCW scenario_tree = Some q1 \<and> RotateCCW q1 = Some q2
         \<and> RotateCCW q2 = Some q3 \<and> RotateCCW q3 = Some q4
         \<and> width q4 = width scenario_tree \<and> height q4 = height scenario_tree
         \<and> (\<forall>scale. Render q4 scale = Render scenario_tree scale))"
  using C6_rotate_four_times [OF scenario_reachable [of euclid]] scenario_reachable [of euclid]
  by simp

subsection \<open>C7: a larger tolerance leaves no more nodes\<close>

text \<open>
  C7: for tolerances \<open>tol1 \<le> tol2\<close>, the number of nodes that remain after pruning a tree
  with \<open>tol2\<close> is at most the number that remain after pruning the same tree with
  \<open>tol1\<close>.
\<close>

theorem C7_prune_monotone:
  assumes "tol1 \<le> tol2"
  shows "countNodes (root (Prune d q tol2)) \<le> countNodes (root (Prune d q tol1))"
  using PruneNode_count_mono [OF assms] by (simp add: Prune_def)

theorem C7_prune_monotone_witness:
  "(1::real) \<le> 500
   \<and> countNodes (root (Prune euclid scenario_tree 500))
       \<le> countNodes (root (Prune euclid scenario_tree 1))
   \<and> countNodes (root (Prune euclid scenario_tree 500)) = 1"
proof -
  have h: "(1::real) \<le> 500" by simp
  from C7_prune_monotone [OF h, of euclid scenario_tree] show ?thesis
    by (simp add: scenario_pruned [of euclid, OF euclid_scenario])
qed

subsection \<open>C8: the split rule\<close>

text \<open>
  C8: the constructor, on a non-empty image of fewer than \<open>2^31\<close> pixels, returns a tree
  whose root covers the image
  and in which every node obeys the split rule: a node wider and higher than 1 has four
  children divided at the rounded-up halves of its width and height, a node of width 1
  has only its NW and SW children, a node of height 1 only its NW and NE children, and a
  one by one node is a leaf whose average is that pixel's colour.
\<close>

theorem C8_split_rule:
  assumes "0 < pngWidth img" "0 < pngHeight img" "pngWidth img * pngHeight img < 2147483648"
  shows "\<exists>q. QTree_of_PNG img = Some q
     \<and> width q = pngWidth img \<and> height q = pngHeight img
     \<and> hasRect (root q) (0, 0) (pngWidth img - 1, pngHeight img - 1)
     \<and> splitRule img (root q)"
proof -
  obtain t where t: "BuildNode img (0, 0) (pngWidth img - 1, pngHeight img - 1) = Some t"
      "built img t" "upLeft t = (0, 0)" "lowRight t = (pngWidth img - 1, pngHeight img - 1)"
    using BuildNode_built [of 0 "pngWidth img - 1" 0 "pngHeight img - 1" img] assms by auto
  have "QTree_of_PNG img = Some \<lparr>height = pngHeight img, width = pngWidth img, root = t\<rparr>"
    using t(1) by (simp add: QTree_of_PNG_def Let_def)
  moreover have "hasRect t (0, 0) (pngWidth img - 1, pngHeight img - 1)"
    using t(3,4) built_not_Null [OF t(2)] by (simp add: hasRect_iff)
  moreover have "splitRule img t" by (rule built_splitRule [OF t(2)])
  ultimately show ?thesis by simp
qed

theorem C8_split_rule_witness:
  "0 < pngWidth scenario_image \<and> 0 < pngHeight scenario_image
   \<and> pngWidth scenario_image * pngHeight scenario_image < 2147483648
   \<and> (\<exists>q. QTree_of_PNG scenario_image = Some q
         \<and> width q = pngWidth scenario_image \<and> height q = pngHeight scenario_image
         \<and> hasRect (root q) (0, 0) (pngWidth scenario_image - 1, pngHeight scenario_image - 1)
         \<and> splitRule scenario_image (root q))"
proof -
  have h: "0 < pngWidth scenario_image" "0 < pngHeight scenario_image"
      "pngWidth scenario_image * pngHeight scenario_image < 2147483648"
    by (simp_all add: scenario_image_def)
  from C8_split_rule [OF h] h show ?thesis by blast
qed

subsection \<open>C9: the two by two scenario\<close>

text \<open>
  C9: building from the two by two image with the pixels (255,0,0), (0,255,0) on the top
  row and (0,0,255), (255,255,0) on the bottom row yields a root with average
  (127,127,63) and four one by one leaf children; Prune with tolerance 500 collapses it to
  a single leaf of that average; Render at scale 1 of the pruned tree is a two by two
  image of that colour.  The colour distance is a parameter; the four pixels are assumed
  to lie within 500 of the root's average, as they do under any distance bounded by 500.
\<close>

theorem C9_scenario:
  assumes "d (RGBAPixel 255 0 0) (RGBAPixel 127 127 63) \<le> 500"
    and "d (RGBAPixel 0 255 0) (RGBAPixel 127 127 63) \<le> 500"
    and "d (RGBAPixel 0 0 255) (RGBAPixel 127 127 63) \<le> 500"
    and "d (RGBAPixel 255 255 0) (RGBAPixel 127 127 63) \<le> 500"
  shows "\<exists>q. QTree_of_PNG scenario_image = Some q
     \<and> root q = Node (0, 0) (1, 1) (RGBAPixel 127 127 63)
         (Node (0, 0) (0, 0) (RGBAPixel 255 0 0) Null Null Null Null)
         (Node (1, 0) (1, 0) (RGBAPixel 0 255 0) Null Null Null Null)
         (Node (0, 1) (0, 1) (RGBAPixel 0 0 255) Null Null Null Null)
         (Node (1, 1) (1, 1) (RGBAPixel 255 255 0) Null Null Null Null)
     \<and> root (Prune d q 500) = Node (0, 0) (1, 1) (RGBAPixel 127 127 63) Null Null Null Null
     \<and> pngWidth (Render (Prune d q 500) 1) = 2
     \<and> pngHeight (Render (Prune d q 500) 1) = 2
     \<and> getPixel (Render (Prune d q 500) 1) 0 0 = RGBAPixel 127 127 63
     \<and> getPixel (Render (Prune d q 500) 1) 1 0 = RGBAPixel 127 127 63
     \<and> getPixel (Render (Prune d q 500) 1) 0 1 = RGBAPixel 127 127 63
     \<and> getPixel (Render (Prune d q 500) 1) 1 1 = RGBAPixel 127 127 63"
proof -
  let ?p = "Prune d scenario_tree 500"
  have p: "?p = \<lparr>height = 2, width = 2,
      root = Node (0, 0) (1, 1) (RGBAPixel 127 127 63) Null Null Null Null\<rparr>"
    by (rule scenario_pruned [of d, OF assms])
  have "pngWidth (Render ?p 1) = 2 \<and> pngHeight (Render ?p 1) = 2
      \<and> getPixel (Render ?p 1) 0 0 = RGBAPixel 127 127 63
      \<and> getPixel (Render ?p 1) 1 0 = RGBAPixel 127 127 63
      \<and> getPixel (Render ?p 1) 0 1 = RGBAPixel 127 127 63
      \<and> getPixel (Render ?p 1) 1 1 = RGBAPixel 127 127 63"
    by (simp only: p render1) (simp add: getPixel_def)
  moreover have "root scenario_tree = scenario_root" by (simp add: scenario_tree_def)
  ultimately show ?thesis
    using scenario_build p by (simp add: scenario_root_def)
qed

theorem C9_scenario_witness:
  "euclid (RGBAPixel 255 0 0) (RGBAPixel 127 127 63) \<le> 500
   \<and> euclid (RGBAPixel 0 255 0) (RGBAPixel 127 127 63) \<le> 500
   \<and> euclid (RGBAPixel 0 0 255) (RGBAPixel 127 127 63) \<le> 500
   \<and> euclid (RGBAPixel 255 255 0) (RGBAPixel 127 127 63) \<le> 500
   \<and> (\<exists>q. QTree_of_PNG scenario_image = Some q
        \<and> root (Prune euclid q 500)
            = Node (0, 0) (1, 1) (RGBAPixel 127 127 63) Null Null Null Null
        \<and> getPixel (Render (Prune euclid q 500) 1) 1 1 = RGBAPixel 127 127 63)"
  using C9_scenario [of euclid, OF euclid_scenario] euclid_scenario by auto

subsection \<open>C10: flip and rotation keep every colour\<close>

text \<open>
  C10: FlipHorizontal and RotateCCW leave the average colour stored in every node
  unchanged.  Whenever either returns, the multiset of the colours of all nodes is the
  same as before, and the tree without its rectangles is the old one with the child
  pointers permuted (west and east exchanged, or cycled by a quarter turn); and on every
  reachable tree both do return.
\<close>

theorem C10_avg_frame:
  "(FlipHorizontal q = Some q1 \<longrightarrow>
      avgs (root q1) = avgs (root q) \<and> unplaced (root q1) = swapEW (unplaced (root q)))
   \<and> (RotateCCW q = Some q2 \<longrightarrow>
      avgs (root q2) = avgs (root q) \<and> unplaced (root q2) = cycleCCW (unplaced (root q)))
   \<and> (reachable d q \<longrightarrow> FlipHorizontal q \<noteq> None \<and> RotateCCW q \<noteq> None)"
proof (intro conjI impI)
  assume f: "FlipHorizontal q = Some q1"
  then obtain t where t: "FlipNode (root q) = Some t" "root q1 = t"
    by (auto simp: FlipHorizontal_def split: option.splits)
  have "avgs t = avgs (root q) \<and> unplaced t = swapEW (unplaced (root q))"
  proof (cases "root q = Null")
    case True
    with t(1) show ?thesis by auto
  next
    case False
    with t(1) FlipNode_frame [of "root q" "upLeft (root q)" "lowRight (root q)" t]
    show ?thesis by (simp add: setCorners_same)
  qed
  with t(2) show "avgs (root q1) = avgs (root q)"
    and "unplaced (root q1) = swapEW (unplaced (root q))" by simp_all
next
  assume r: "RotateCCW q = Some q2"
  then obtain ul lr a nw ne sw se t where
    rq: "root q = Node ul lr a nw ne sw se" and
    t: "RotateSubtree (Node ul (snd lr, fst lr) a nw ne sw se) = Some t" "root q2 = t"
    by (auto simp: RotateCCW_def split: node.splits option.splits simp del: RotateSubtree.simps)
  have "Node ul (snd lr, fst lr) a nw ne sw se = setCorners (root q) ul (snd lr, fst lr)"
    by (simp add: rq)
  with t(1) RotateSubtree_frame [of "root q" ul "(snd lr, fst lr)" t]
  have "avgs t = avgs (root q) \<and> unplaced t = cycleCCW (unplaced (root q))"
    by (simp del: RotateSubtree.simps)
  with t(2) show "avgs (root q2) = avgs (root q)"
    and "unplaced (root q2) = cycleCCW (unplaced (root q))" by simp_all
next
  assume "reachable d q"
  from reachable_qinv [OF this] obtain s where s: "qinv q s" ..
  from FlipHorizontal_qinv [OF s] show "FlipHorizontal q \<noteq> None" by simp
  from RotateCCW_qinv [OF s] show "RotateCCW q \<noteq> None" by simp
qed

theorem C10_avg_frame_witness:
  "(\<exists>q1. FlipHorizontal scenario_tree = Some q1
       \<and> avgs (root q1) = avgs (root scenario_tree)
       \<and> unplaced (root q1) = swapEW (unplaced (root scenario_tree)))
   \<and> (\<exists>q2. RotateCCW scenario_tree = Some q2
       \<and> avgs (root q2) = avgs (root scenario_tree)
       \<and> unplaced (root q2) = cycleCCW (unplaced (root scenario_tree)))
   \<and> reachable euclid scenario_tree"
proof -
  have r: "reachable euclid scenario_tree" by (rule scenario_reachable)
  obtain q1 where q1: "FlipHorizontal scenario_tree = Some q1"
    using C10_avg_frame [of scenario_tree _ _ euclid] r by blast
  obtain q2 where q2: "RotateCCW scenario_tree = Some q2"
    using C10_avg_frame [of scenario_tree _ _ euclid] r by blast
  from C10_avg_frame [of scenario_tree q1 q2 euclid] q1 q2 r show ?thesis by simp
qed

subsection \<open>Below the overflow bound the averages are the weighted means\<close>

text \<open>
  On an image of at most 8421504 pixels (so that the area times 255 stays below
  \<open>2^31\<close>) every internal node of the freshly built tree stores the integer-truncating
  area-weighted mean of its direct children's averages in each channel.
\<close>

theorem avgRule_below_overflow:
  assumes "0 < pngWidth img" "0 < pngHeight img"
    and "pngWidth img * pngHeight img * 255 < 2147483648"
  shows "\<exists>q. QTree_of_PNG img = Some q \<and> avgRule (root q)"
proof -
  have "0 < pngWidth img * pngHeight img" using assms(1,2) by simp
  then have small: "pngWidth img * pngHeight img < 2147483648" using assms(3) by linarith
  obtain t where t: "BuildNode img (0, 0) (pngWidth img - 1, pngHeight img - 1) = Some t"
      "built img t" "upLeft t = (0, 0)" "lowRight t = (pngWidth img - 1, pngHeight img - 1)"
    using BuildNode_built [of 0 "pngWidth img - 1" 0 "pngHeight img - 1" img] assms(1,2) small
    by auto
  have "rectArea t = pngWidth img * pngHeight img"
    using rectArea_corners [OF built_not_Null [OF t(2)] t(3,4)] by simp
  with built_avg [OF t(2), of RGBAPixel_default] assms(3) have "avgRule t" by simp
  with t(1) show ?thesis by (simp add: QTree_of_PNG_def Let_def)
qed

theorem avgRule_below_overflow_witness:
  "0 < pngWidth scenario_image \<and> 0 < pngHeight scenario_image
   \<and> pngWidth scenario_image * pngHeight scenario_image * 255 < 2147483648
   \<and> (\<exists>q. QTree_of_PNG scenario_image = Some q \<and> avgRule (root q))"
proof -
  have h: "0 < pngWidth scenario_image" "0 < pngHeight scenario_image"
      "pngWidth scenario_image * pngHeight scenario_image * 255 < 2147483648"
    by (simp_all add: scenario_image_def)
  from avgRule_below_overflow [OF h] h show ?thesis by blast
qed

subsection \<open>Stored coordinates stay inside the image\<close>

text \<open>
  The reading of the \<^verbatim>\<open>unsigned int\<close> coordinates as integers is sound on reachable
  trees: the stored width and height are positive with a product below \<open>2^31\<close>, and
  every node's rectangle is non-empty with both corners between 0 and the stored width
  and height.  So no coordinate that the program stores has wrapped.
\<close>

theorem coordinates_in_frame:
  assumes "reachable d q"
  shows "0 < width q \<and> 0 < height q \<and> width q * height q < 2147483648
     \<and> inFrame (width q) (height q) (root q)"
proof -
  from reachable_qinv [OF assms] obtain s where s: "qinv q s" ..
  then have "inFrame (width q) (height q) (place 0 0 s)"
    by (intro place_inFrame) (simp_all add: qinv_def)
  with s reachable_size [OF assms] show ?thesis by (simp add: qinv_def)
qed

theorem coordinates_in_frame_witness:
  "reachable euclid scenario_tree
   \<and> 0 < width scenario_tree \<and> 0 < height scenario_tree
   \<and> width scenario_tree * height scenario_tree < 2147483648
   \<and> inFrame (width scenario_tree) (height scenario_tree) (root scenario_tree)"
  using coordinates_in_frame [OF scenario_reachable [of euclid]] scenario_reachable [of euclid]
  by simp

end
